theory Spec2Isabelle
  imports
    Main
    "HOL-Library.AList"
    "HOL-Library.Char_ord"
    "HOL-Library.List_Lexorder"
    "HOL-Library.Product_Lexorder"
    "HOL-Library.Multiset"
begin

section \<open>Values returned by the remote call\<close>

text \<open>
  The raw result of \<^verbatim>\<open>connection.call\<close> is a Python dict from parameter names to
  values. A value is a scalar, a structure (dict) or a table (list of rows). Dicts are
  association lists in insertion order, as a Python dict iterates; a lookup reads the
  first entry of a key. The scalars are the objects the library builds from the fields
  of the remote system: \<^verbatim>\<open>None\<close>, booleans, integers, strings, floats (a mantissa
  and a binary exponent), \<^verbatim>\<open>Decimal\<close> numbers for packed fields (a coefficient and a
  decimal exponent) and \<^verbatim>\<open>bytes\<close> for raw fields.
\<close>

datatype pyval =
    PNone
  | PBool bool
  | PInt int
  | PStr string
  | PFloat int int
  | PDecimal int int
  | PBytes string
  | PList "pyval list"
  | PDict "(string \<times> pyval) list"

type_synonym pydict = "(string \<times> pyval) list"

datatype py_error = AttributeError | TypeError

text \<open>Python's truth value of an object, as \<^verbatim>\<open>or\<close> and \<^verbatim>\<open>if\<close> test it.\<close>

fun truthy :: "pyval \<Rightarrow> bool" where
  "truthy PNone = False"
| "truthy (PBool b) = b"
| "truthy (PInt i) = (i \<noteq> 0)"
| "truthy (PStr s) = (s \<noteq> [])"
| "truthy (PFloat m e) = (m \<noteq> 0)"
| "truthy (PDecimal m e) = (m \<noteq> 0)"
| "truthy (PBytes b) = (b \<noteq> [])"
| "truthy (PList xs) = (xs \<noteq> [])"
| "truthy (PDict d) = (d \<noteq> [])"

text \<open>
  The objects \<^verbatim>\<open>json.dumps\<close> can write. It raises \<^verbatim>\<open>TypeError\<close> on a
  \<^verbatim>\<open>Decimal\<close> and on \<^verbatim>\<open>bytes\<close>, wherever they stand inside a list or a dict.
\<close>

fun json_serializable :: "pyval \<Rightarrow> bool" where
  "json_serializable PNone = True"
| "json_serializable (PBool b) = True"
| "json_serializable (PInt i) = True"
| "json_serializable (PStr s) = True"
| "json_serializable (PFloat m e) = True"
| "json_serializable (PDecimal m e) = False"
| "json_serializable (PBytes b) = False"
| "json_serializable (PList xs) = list_all json_serializable xs"
| "json_serializable (PDict d) = list_all (\<lambda>kv. json_serializable (snd kv)) d"

text \<open>\<^verbatim>\<open>d.get(k)\<close>: the value of the key, \<^verbatim>\<open>None\<close> when the key is absent.\<close>

definition dict_get :: "pydict \<Rightarrow> string \<Rightarrow> pyval" where
  "dict_get d k = (case map_of d k of None \<Rightarrow> PNone | Some v \<Rightarrow> v)"

text \<open>\<^verbatim>\<open>a or b\<close>: the left operand when it is true, the right one otherwise.\<close>

definition py_or :: "pyval \<Rightarrow> pyval \<Rightarrow> pyval" where
  "py_or a b = (if truthy a then a else b)"

fun is_list :: "pyval \<Rightarrow> bool" where
  "is_list (PList _) = True"
| "is_list _ = False"

fun is_dict :: "pyval \<Rightarrow> bool" where
  "is_dict (PDict _) = True"
| "is_dict _ = False"

section \<open>Capture specifiers\<close>

text \<open>
  \<^verbatim>\<open>if '[' in param and param.endswith(']')\<close> selects the indexed-table form.
  \<^verbatim>\<open>param.split('[', 1)\<close> cuts at the first bracket, and
  \<^verbatim>\<open>field.rstrip(']')\<close> removes every closing bracket at the end.
\<close>

definition endswith_rbracket :: "string \<Rightarrow> bool" where
  "endswith_rbracket s = (s \<noteq> [] \<and> last s = CHR '']'')"

definition is_indexed :: "string \<Rightarrow> bool" where
  "is_indexed param = (CHR ''['' \<in> set param \<and> endswith_rbracket param)"

definition rstrip_rbracket :: "string \<Rightarrow> string" where
  "rstrip_rbracket s = rev (dropWhile (\<lambda>c. c = CHR '']'') (rev s))"

definition split_table :: "string \<Rightarrow> string" where
  "split_table param = takeWhile (\<lambda>c. c \<noteq> CHR ''['') param"

definition split_rest :: "string \<Rightarrow> string" where
  "split_rest param = tl (dropWhile (\<lambda>c. c \<noteq> CHR ''['') param)"

definition split_field :: "string \<Rightarrow> string" where
  "split_field param = rstrip_rbracket (split_rest param)"

section \<open>The result projector\<close>

text \<open>
  One element of the generator in \<^verbatim>\<open>_process_results\<close>:
  \<^verbatim>\<open>row.get(field) or row.get("WA")\<close>.
\<close>

definition extract_row :: "string \<Rightarrow> pydict \<Rightarrow> pyval" where
  "extract_row field row = py_or (dict_get row field) (dict_get row ''WA'')"

text \<open>
  The generator itself: it walks the table in order and yields one element for every
  row that passes \<^verbatim>\<open>isinstance(row, dict)\<close>.
\<close>

fun extract_rows :: "string \<Rightarrow> pyval list \<Rightarrow> pyval list" where
  "extract_rows field [] = []"
| "extract_rows field (row # rows) =
     (case row of
        PDict d \<Rightarrow> extract_row field d # extract_rows field rows
      | _ \<Rightarrow> extract_rows field rows)"

text \<open>
  \<^verbatim>\<open>captured_results[param].extend(...)\<close> on a \<^verbatim>\<open>defaultdict(list)\<close>: a missing
  key is first created with the empty list, at the end of the dict; the list found
  under the key is then extended in place. A value that is no list has no
  \<^verbatim>\<open>extend\<close>.
\<close>

definition extend_entry :: "pydict \<Rightarrow> string \<Rightarrow> pyval list \<Rightarrow> py_error + pydict" where
  "extend_entry acc k vs =
     (case map_of acc k of
        None \<Rightarrow> Inr (acc @ [(k, PList vs)])
      | Some (PList old) \<Rightarrow> Inr (AList.update k (PList (old @ vs)) acc)
      | Some _ \<Rightarrow> Inl AttributeError)"

text \<open>The body of the loop over the specifiers, for one specifier.\<close>

definition process_param :: "pydict \<Rightarrow> pydict \<Rightarrow> string \<Rightarrow> py_error + pydict" where
  "process_param result acc param =
     (if is_indexed param then
        (case map_of result (split_table param) of
           Some (PList rows) \<Rightarrow> extend_entry acc param (extract_rows (split_field param) rows)
         | _ \<Rightarrow> Inr acc)
      else
        (case map_of result param of
           Some v \<Rightarrow> Inr (AList.update param v acc)
         | None \<Rightarrow> Inr acc))"

text \<open>The loop \<^verbatim>\<open>for param in params_to_capture\<close>, in the order the set is iterated.\<close>

fun process_loop :: "pydict \<Rightarrow> pydict \<Rightarrow> string list \<Rightarrow> py_error + pydict" where
  "process_loop result acc [] = Inr acc"
| "process_loop result acc (param # params) =
     (case process_param result acc param of
        Inl e \<Rightarrow> Inl e
      | Inr acc' \<Rightarrow> process_loop result acc' params)"

text \<open>
  Both display functions print one line per entry, \<^verbatim>\<open>json.dumps(value, indent=2)\<close>
  for a list or a dict and the value itself otherwise. The text of the rendering is not
  modelled: an entry records which of the two renderings is applied to which value.
  \<^verbatim>\<open>json.dumps\<close> raises on an object it cannot write; the value itself, put into the
  line by the f-string, is printed whatever it is.
\<close>

datatype shown = Dumped pyval | AsIs pyval

fun shown_content :: "shown \<Rightarrow> pyval" where
  "shown_content (Dumped v) = v"
| "shown_content (AsIs v) = v"

definition format_value :: "pyval \<Rightarrow> py_error + shown" where
  "format_value v =
     (if is_list v \<or> is_dict v
      then (if json_serializable v then Inr (Dumped v) else Inl TypeError)
      else Inr (AsIs v))"

text \<open>
  The loop \<^verbatim>\<open>for key, value in results.items()\<close> of the display functions: one
  line per entry, in the order of the dict. An exception ends the loop; \<open>Inl\<close> holds
  it together with the lines printed before.
\<close>

fun display_entries ::
  "pydict \<Rightarrow> (py_error \<times> (string \<times> shown) list) + (string \<times> shown) list" where
  "display_entries [] = Inr []"
| "display_entries ((k, v) # rest) =
     (case format_value v of
        Inl e \<Rightarrow> Inl (e, [])
      | Inr s \<Rightarrow>
          (case display_entries rest of
             Inl (e, ls) \<Rightarrow> Inl (e, (k, s) # ls)
           | Inr ls \<Rightarrow> Inr ((k, s) # ls)))"

text \<open>
  What \<^verbatim>\<open>_process_results\<close> prints: the header of \<^verbatim>\<open>_display_all_results\<close> or of
  \<^verbatim>\<open>_display_captured_results\<close>, followed by the entries.
\<close>

datatype printed =
    AllResults "(string \<times> shown) list"
  | CapturedResults "(string \<times> shown) list"

text \<open>
  \<^verbatim>\<open>_process_results(result, params_to_capture)\<close>. The second argument is
  \<^verbatim>\<open>None\<close> or a set of strings; a set is given by the list of its elements in the
  order the loop visits them. \<^verbatim>\<open>not params_to_capture\<close> holds for \<^verbatim>\<open>None\<close> and
  for the empty set. \<open>Inr\<close> is a normal return with what was printed; \<open>Inl\<close> is
  an exception with what was printed before it, if anything was.
\<close>

definition display_all_results :: "pydict \<Rightarrow> (py_error \<times> printed option) + printed" where
  "display_all_results result =
     (case display_entries result of
        Inl (e, ls) \<Rightarrow> Inl (e, Some (AllResults ls))
      | Inr ls \<Rightarrow> Inr (AllResults ls))"

definition display_captured_results :: "pydict \<Rightarrow> (py_error \<times> printed option) + printed" where
  "display_captured_results results =
     (case display_entries results of
        Inl (e, ls) \<Rightarrow> Inl (e, Some (CapturedResults ls))
      | Inr ls \<Rightarrow> Inr (CapturedResults ls))"

definition process_results ::
  "pydict \<Rightarrow> string list option \<Rightarrow> (py_error \<times> printed option) + printed" where
  "process_results result params_to_capture =
     (case params_to_capture of
        None \<Rightarrow> display_all_results result
      | Some params \<Rightarrow>
          if params = [] then display_all_results result
          else (case process_loop result [] params of
                  Inl e \<Rightarrow> Inl (e, None)
                | Inr captured \<Rightarrow> display_captured_results captured))"

text \<open>The lines of a display that no exception ends: every entry, rendered or as it is.\<close>

definition shown_entries :: "pydict \<Rightarrow> (string \<times> shown) list" where
  "shown_entries results =
     map (\<lambda>(k, v). (k, if is_list v \<or> is_dict v then Dumped v else AsIs v)) results"

text \<open>
  \<^verbatim>\<open>set(export_spec.get("capture", []))\<close> in \<^verbatim>\<open>main\<close>: the capture array becomes a
  set. A set holds each element once, and the order in which a loop visits a set of
  strings is fixed by their hashes, not by the array. An iteration of the set is any
  duplicate-free list with the elements of the array.
\<close>

definition set_iteration :: "string list \<Rightarrow> string list \<Rightarrow> bool" where
  "set_iteration capture params = (distinct params \<and> set params = set capture)"

text \<open>
  The entry one specifier contributes: what the loop body stores under the specifier
  when it has not met the specifier before (\<open>None\<close>: nothing is stored).
\<close>

definition capture_entry :: "pydict \<Rightarrow> string \<Rightarrow> pyval option" where
  "capture_entry result param =
     (if is_indexed param then
        (case map_of result (split_table param) of
           Some (PList rows) \<Rightarrow> Some (PList (extract_rows (split_field param) rows))
         | _ \<Rightarrow> None)
      else map_of result param)"

text \<open>The rows of a table that are dicts, in the order of the table.\<close>

fun row_dicts :: "pyval list \<Rightarrow> pydict list" where
  "row_dicts [] = []"
| "row_dicts (row # rows) = (case row of PDict d \<Rightarrow> d # row_dicts rows | _ \<Rightarrow> row_dicts rows)"

definition entry_list :: "pydict \<Rightarrow> string \<Rightarrow> pydict" where
  "entry_list result param =
     (case capture_entry result param of None \<Rightarrow> [] | Some v \<Rightarrow> [(param, v)])"

text \<open>
  The invariant of the loop that keeps \<^verbatim>\<open>extend\<close> from failing: a key in the
  indexed-table form holds a list.
\<close>

definition lists_under_indexed :: "pydict \<Rightarrow> bool" where
  "lists_under_indexed acc = (\<forall>(k, v) \<in> set acc. is_indexed k \<longrightarrow> is_list v)"

text \<open>
  The number of rows that are dicts and hold the field or the key \<^verbatim>\<open>WA\<close>: the
  length the specification gives for the sequence extracted from a table.
\<close>

definition has_key :: "pydict \<Rightarrow> string \<Rightarrow> bool" where
  "has_key d k = (k \<in> fst ` set d)"

definition rows_with_field_or_wa :: "string \<Rightarrow> pyval list \<Rightarrow> nat" where
  "rows_with_field_or_wa field rows =
     length (filter (\<lambda>d. has_key d field \<or> has_key d ''WA'') (row_dicts rows))"

text \<open>
  The raw result of the scenario of the specification, its field named \<^verbatim>\<open>F\<close>:
  a table of two rows, the first with the work area only, and a scalar.
\<close>

definition scenario_result :: pydict where
  "scenario_result =
     [(''ITAB'', PList [PDict [(''WA'', PStr ''x'')], PDict [(''F'', PStr ''y'')]]),
      (''STATUS'', PStr ''OK'')]"

section \<open>Connection parameters\<close>

text \<open>
  The dataclass \<^verbatim>\<open>ConnectionParams\<close>. Python does not enforce the annotations, so
  every field may hold \<^verbatim>\<open>None\<close>. \<^verbatim>\<open>self.__dict__.items()\<close> lists the fields in the
  order of their declaration.
\<close>

record ConnectionParams =
  user :: "string option"
  passwd :: "string option"
  ashost :: "string option"
  client :: "string option"
  sysnr :: "string option"
  saprouter :: "string option"
  dest :: "string option"
  lang :: "string option"

definition dict_items :: "ConnectionParams \<Rightarrow> (string \<times> string option) list" where
  "dict_items p =
     [(''user'', user p), (''passwd'', passwd p), (''ashost'', ashost p),
      (''client'', client p), (''sysnr'', sysnr p), (''saprouter'', saprouter p),
      (''dest'', dest p), (''lang'', lang p)]"

fun to_dict_items :: "(string \<times> string option) list \<Rightarrow> (string \<times> string) list" where
  "to_dict_items [] = []"
| "to_dict_items ((k, v) # kvs) =
     (case v of
        Some s \<Rightarrow> (if k \<in> set [''dest'', ''lang''] then to_dict_items kvs
                   else (k, s) # to_dict_items kvs)
      | None \<Rightarrow> to_dict_items kvs)"

definition to_dict :: "ConnectionParams \<Rightarrow> (string \<times> string) list" where
  "to_dict p = to_dict_items (dict_items p)"

text \<open>
  \<^verbatim>\<open>SAPConnection.connect\<close>. The native library is a parameter: it sees the keyword
  arguments \<^verbatim>\<open>Connection(**params_dict)\<close> and connects, raises one of the RFC errors
  the method catches (it logs the error and calls \<^verbatim>\<open>sys.exit(1)\<close>), raises another
  exception, or is interrupted by the operator. Before the call the log line reads
  \<^verbatim>\<open>params_dict['ashost']\<close>, \<^verbatim>\<open>['sysnr']\<close> and \<^verbatim>\<open>['client']\<close>, a
  \<^verbatim>\<open>KeyError\<close> when one of them is missing.
\<close>

datatype native_result =
  NativeConnected | NativeRFCError | NativeOtherError | NativeInterrupted

datatype connect_result = ConnOpened | ConnExit int | ConnRaised | ConnInterrupted

definition connect ::
  "((string \<times> string) list \<Rightarrow> native_result) \<Rightarrow> ConnectionParams \<Rightarrow> connect_result" where
  "connect native p =
     (let params_dict = to_dict p in
      if map_of params_dict ''ashost'' = None \<or> map_of params_dict ''sysnr'' = None
         \<or> map_of params_dict ''client'' = None
      then ConnRaised
      else (case native params_dict of
              NativeConnected \<Rightarrow> ConnOpened
            | NativeRFCError \<Rightarrow> ConnExit 1
            | NativeOtherError \<Rightarrow> ConnRaised
            | NativeInterrupted \<Rightarrow> ConnInterrupted))"

section \<open>The invocation and the exit code\<close>

text \<open>
  What \<^verbatim>\<open>connection.call\<close> does is a parameter. \<^verbatim>\<open>ABAPApplicationError\<close> is the
  application-level fault of the remote procedure; \<^verbatim>\<open>execute_function\<close> catches it
  together with every other \<^verbatim>\<open>RFCError\<close>.
\<close>

datatype call_result =
    Returned pydict
  | RaisedABAPApplicationError
  | RaisedRFCError
  | RaisedOtherException
  | RaisedKeyboardInterrupt

datatype raised = Exception | KeyboardInterrupt | SystemExit int

datatype event =
  Opened | Invoked | Described | Displayed printed | ErrorLogged | WarningLogged | Closed

text \<open>
  \<^verbatim>\<open>execute_function\<close> returns \<^verbatim>\<open>True\<close> after a call that returned and
  \<^verbatim>\<open>False\<close> after one that raised an RFC error; any other exception leaves it.
  A result that is an empty dict is not processed (\<^verbatim>\<open>if result:\<close>). An exception
  of \<^verbatim>\<open>_process_results\<close> is no RFC error and leaves the method as well.
\<close>

definition execute_function ::
  "call_result \<Rightarrow> string list option \<Rightarrow> (raised + bool) \<times> event list" where
  "execute_function call params_to_capture =
     (case call of
        Returned result \<Rightarrow>
          if result \<noteq> [] then
            (case process_results result params_to_capture of
               Inl (e, None) \<Rightarrow> (Inl Exception, [Invoked])
             | Inl (e, Some out) \<Rightarrow> (Inl Exception, [Invoked, Displayed out])
             | Inr out \<Rightarrow> (Inr True, [Invoked, Displayed out]))
          else (Inr True, [Invoked])
      | RaisedABAPApplicationError \<Rightarrow> (Inr False, [Invoked, ErrorLogged])
      | RaisedRFCError \<Rightarrow> (Inr False, [Invoked, ErrorLogged])
      | RaisedOtherException \<Rightarrow> (Inl Exception, [Invoked])
      | RaisedKeyboardInterrupt \<Rightarrow> (Inl KeyboardInterrupt, [Invoked]))"

text \<open>
  \<^verbatim>\<open>get_function_metadata\<close> returns \<^verbatim>\<open>True\<close> when the description was printed and
  \<^verbatim>\<open>False\<close> when there is none or when reading or printing it raised an exception.
\<close>

datatype describe_result = DescribePrinted | DescribeFailed | DescribeInterrupted

definition get_function_metadata :: "describe_result \<Rightarrow> (raised + bool) \<times> event list" where
  "get_function_metadata d =
     (case d of
        DescribePrinted \<Rightarrow> (Inr True, [Described])
      | DescribeFailed \<Rightarrow> (Inr False, [ErrorLogged])
      | DescribeInterrupted \<Rightarrow> (Inl KeyboardInterrupt, []))"

text \<open>
  The body of the \<^verbatim>\<open>with\<close> block of \<^verbatim>\<open>main\<close>: with \<^verbatim>\<open>--desc\<close> a false return
  value becomes \<^verbatim>\<open>sys.exit(1)\<close>; without it the return value of
  \<^verbatim>\<open>execute_function\<close> is dropped.
\<close>

definition with_body ::
  "bool \<Rightarrow> describe_result \<Rightarrow> call_result \<Rightarrow> string list option
     \<Rightarrow> raised option \<times> event list" where
  "with_body desc d call params_to_capture =
     (if desc then
        (case get_function_metadata d of
           (Inr ok, evs) \<Rightarrow> (if \<not> ok then (Some (SystemExit 1), evs) else (None, evs))
         | (Inl r, evs) \<Rightarrow> (Some r, evs))
      else
        (case execute_function call params_to_capture of
           (Inr ok, evs) \<Rightarrow> (None, evs)
         | (Inl r, evs) \<Rightarrow> (Some r, evs)))"

text \<open>
  The exit code of the process for what leaves the \<^verbatim>\<open>try\<close> of \<^verbatim>\<open>main\<close>:
  \<^verbatim>\<open>KeyboardInterrupt\<close> gives 130, an \<^verbatim>\<open>Exception\<close> gives 1, \<^verbatim>\<open>SystemExit\<close>
  is not an \<^verbatim>\<open>Exception\<close> and keeps its code, and a normal return gives 0. The
  handler of \<^verbatim>\<open>KeyboardInterrupt\<close> logs a warning, that of \<^verbatim>\<open>Exception\<close> an
  error.
\<close>

fun exit_code :: "raised option \<Rightarrow> int" where
  "exit_code None = 0"
| "exit_code (Some Exception) = 1"
| "exit_code (Some KeyboardInterrupt) = 130"
| "exit_code (Some (SystemExit n)) = n"

fun handler_events :: "raised option \<Rightarrow> event list" where
  "handler_events (Some Exception) = [ErrorLogged]"
| "handler_events (Some KeyboardInterrupt) = [WarningLogged]"
| "handler_events _ = []"

text \<open>
  \<^verbatim>\<open>main\<close> from the \<^verbatim>\<open>with\<close> statement on. When \<^verbatim>\<open>__enter__\<close> does not return,
  \<^verbatim>\<open>__exit__\<close> is not run; otherwise \<^verbatim>\<open>__exit__\<close> closes the connection whatever
  the body did. The result is the exit code and the events in their order.
\<close>

definition main_session ::
  "connect_result \<Rightarrow> bool \<Rightarrow> describe_result \<Rightarrow> call_result \<Rightarrow> string list option
     \<Rightarrow> int \<times> event list" where
  "main_session conn desc d call params_to_capture =
     (case conn of
        ConnExit n \<Rightarrow> (n, [ErrorLogged])
      | ConnRaised \<Rightarrow> (1, [ErrorLogged])
      | ConnInterrupted \<Rightarrow> (130, [WarningLogged])
      | ConnOpened \<Rightarrow>
          (case with_body desc d call params_to_capture of
             (r, evs) \<Rightarrow> (exit_code r, Opened # evs @ [Closed] @ handler_events r)))"

section \<open>The configuration file\<close>

text \<open>
  A file read by \<^verbatim>\<open>ConfigParser\<close>: the options of the \<^verbatim>\<open>DEFAULT\<close> section and the
  other sections in the order of the file, each with its own options, names in lower
  case and values as written in the file. \<^verbatim>\<open>sections()\<close> does not list
  \<^verbatim>\<open>DEFAULT\<close>; \<^verbatim>\<open>has_option\<close>, \<^verbatim>\<open>get\<close> and \<^verbatim>\<open>items\<close> fall back on it.
\<close>

type_synonym options = "(string \<times> string) list"

record config =
  cfg_defaults :: options
  cfg_sections :: "(string \<times> options) list"

datatype config_file = NoFile | Unparsable | Parsed config

datatype config_error =
    NoOptionError
  | InterpolationSyntaxError
  | InterpolationMissingOptionError
  | InterpolationDepthError

definition has_option :: "config \<Rightarrow> options \<Rightarrow> string \<Rightarrow> bool" where
  "has_option cfg opts k = (k \<in> fst ` set opts \<or> k \<in> fst ` set (cfg_defaults cfg))"

text \<open>\<^verbatim>\<open>d.update(e)\<close> on dicts in insertion order.\<close>

definition dict_update :: "options \<Rightarrow> options \<Rightarrow> options" where
  "dict_update d e = fold (\<lambda>(k, v). AList.update k v) e d"

text \<open>
  The options \<^verbatim>\<open>get\<close> and \<^verbatim>\<open>items\<close> see for a section: those of \<^verbatim>\<open>DEFAULT\<close>,
  updated with the section's own.
\<close>

definition unify_values :: "config \<Rightarrow> options \<Rightarrow> options" where
  "unify_values cfg opts = dict_update (cfg_defaults cfg) opts"

text \<open>
  \<^verbatim>\<open>ConfigParser\<close> interpolates every value it hands out
  (\<^verbatim>\<open>BasicInterpolation\<close>). \<^verbatim>\<open>optionxform\<close> is \<^verbatim>\<open>str.lower\<close>, here on the
  letters A to Z.
\<close>

definition lower_char :: "char \<Rightarrow> char" where
  "lower_char c =
     (if CHR ''A'' \<le> c \<and> c \<le> CHR ''Z'' then char_of (of_char c + (32::nat)) else c)"

definition lower :: "string \<Rightarrow> string" where
  "lower s = map lower_char s"

text \<open>
  The pattern \<^verbatim>\<open>%\(([^)]+)\)s\<close> matched at a reference, given the text after
  \<^verbatim>\<open>%(\<close>: the name is the text before the first closing parenthesis, it is not
  empty, and \<^verbatim>\<open>)s\<close> follows. The result is the name and the text after the match.
\<close>

definition key_match :: "string \<Rightarrow> (string \<times> string) option" where
  "key_match cs =
     (let var = takeWhile (\<lambda>c. c \<noteq> CHR '')'') cs;
          after = dropWhile (\<lambda>c. c \<noteq> CHR '')'') cs
      in if var \<noteq> [] \<and> take 2 after = '')s'' then Some (var, drop 2 after) else None)"

text \<open>
  \<^verbatim>\<open>_interpolate_some\<close>: the text is copied up to each percent sign;
  \<^verbatim>\<open>%%\<close> gives a percent sign; \<^verbatim>\<open>%(name)s\<close> gives the value of the option of
  that name, interpolated in turn one level deeper when it holds a percent sign; any
  other use of the percent sign is a syntax error, a name that is no option is a
  missing option, and a depth above 10 is a depth error.
\<close>

function interpolate_some :: "options \<Rightarrow> nat \<Rightarrow> string \<Rightarrow> config_error + string" where
  "interpolate_some m depth rest =
     (if depth > 10 then Inl InterpolationDepthError
      else (case rest of
        [] \<Rightarrow> Inr []
      | c # cs \<Rightarrow>
          if c \<noteq> CHR ''%'' then
            (case interpolate_some m depth cs of
               Inl e \<Rightarrow> Inl e
             | Inr s \<Rightarrow> Inr (c # s))
          else (case cs of
            [] \<Rightarrow> Inl InterpolationSyntaxError
          | c' # cs' \<Rightarrow>
              if c' = CHR ''%'' then
                (case interpolate_some m depth cs' of
                   Inl e \<Rightarrow> Inl e
                 | Inr s \<Rightarrow> Inr (CHR ''%'' # s))
              else if c' = CHR ''('' then
                (case key_match cs' of
                   None \<Rightarrow> Inl InterpolationSyntaxError
                 | Some (var, rest') \<Rightarrow>
                     (case map_of m (lower var) of
                        None \<Rightarrow> Inl InterpolationMissingOptionError
                      | Some v \<Rightarrow>
                          (case (if CHR ''%'' \<in> set v
                                 then interpolate_some m (Suc depth) v else Inr v) of
                             Inl e \<Rightarrow> Inl e
                           | Inr s \<Rightarrow>
                               (case interpolate_some m depth rest' of
                                  Inl e \<Rightarrow> Inl e
                                | Inr s' \<Rightarrow> Inr (s @ s')))))
              else Inl InterpolationSyntaxError)))"
  by pat_completeness auto
termination
proof -
  have shorter: "length rest \<le> length cs" if "key_match cs = Some (var, rest)"
    for cs var rest
  proof -
    from that have "rest = drop 2 (dropWhile (\<lambda>c. c \<noteq> CHR '')'') cs)"
      by (simp add: key_match_def Let_def split: if_splits)
    then show ?thesis
      using length_dropWhile_le[of "\<lambda>c. c \<noteq> CHR '')''" cs] by simp
  qed
  show ?thesis
    by (relation "measures [\<lambda>(m, depth, rest). 11 - depth, \<lambda>(m, depth, rest). length rest]")
       (auto dest: shorter)
qed

declare interpolate_some.simps [simp del]

text \<open>\<^verbatim>\<open>before_get\<close> starts the interpolation of a value at depth 1.\<close>

definition before_get :: "options \<Rightarrow> string \<Rightarrow> config_error + string" where
  "before_get m v = interpolate_some m 1 v"

text \<open>
  \<^verbatim>\<open>config.get(section, option)\<close>: the value of the option in the section or in
  \<^verbatim>\<open>DEFAULT\<close>, interpolated over the options of both.
\<close>

definition get_option :: "config \<Rightarrow> options \<Rightarrow> string \<Rightarrow> config_error + string" where
  "get_option cfg opts k =
     (case map_of (unify_values cfg opts) k of
        None \<Rightarrow> Inl NoOptionError
      | Some v \<Rightarrow> before_get (unify_values cfg opts) v)"

text \<open>
  \<^verbatim>\<open>config.items(section)\<close>: every option the section sees, in the order of the
  dict, with its interpolated value; the first value that cannot be interpolated raises.
\<close>

fun interpolate_items :: "options \<Rightarrow> options \<Rightarrow> config_error + options" where
  "interpolate_items m [] = Inr []"
| "interpolate_items m ((k, v) # kvs) =
     (case before_get m v of
        Inl e \<Rightarrow> Inl e
      | Inr s \<Rightarrow>
          (case interpolate_items m kvs of
             Inl e \<Rightarrow> Inl e
           | Inr r \<Rightarrow> Inr ((k, s) # r)))"

definition items :: "config \<Rightarrow> options \<Rightarrow> config_error + options" where
  "items cfg opts = interpolate_items (unify_values cfg opts) (unify_values cfg opts)"

text \<open>
  \<^verbatim>\<open>dict(config.items(section))\<close> inside the \<^verbatim>\<open>try\<close> of \<^verbatim>\<open>load_config\<close>: an
  exception is caught by \<^verbatim>\<open>except Exception\<close>, which logs it and calls
  \<^verbatim>\<open>sys.exit(1)\<close>.
\<close>

definition section_items :: "config \<Rightarrow> options \<Rightarrow> int + options" where
  "section_items cfg opts = (case items cfg opts of Inl e \<Rightarrow> Inl 1 | Inr its \<Rightarrow> Inr its)"

text \<open>
  The loop \<^verbatim>\<open>for section in config.sections()\<close> of \<^verbatim>\<open>load_config\<close>: the first
  section whose \<^verbatim>\<open>dest\<close> option equals the destination is returned; when the loop
  ends without one, the process exits with 1, and so it does when \<^verbatim>\<open>get\<close> or
  \<^verbatim>\<open>items\<close> raises on the way.
\<close>

fun find_dest :: "config \<Rightarrow> string \<Rightarrow> (string \<times> options) list \<Rightarrow> int + options" where
  "find_dest cfg d [] = Inl 1"
| "find_dest cfg d ((sec, opts) # rest) =
     (if has_option cfg opts ''dest'' then
        (case get_option cfg opts ''dest'' of
           Inl e \<Rightarrow> Inl 1
         | Inr v \<Rightarrow> if v = d then section_items cfg opts else find_dest cfg d rest)
      else find_dest cfg d rest)"

text \<open>
  \<^verbatim>\<open>load_config(config_file, dest)\<close>: \<open>Inl n\<close> is \<^verbatim>\<open>sys.exit(n)\<close>. A missing
  file and a file \<^verbatim>\<open>ConfigParser\<close> rejects both end in exit code 1. \<^verbatim>\<open>if dest:\<close>
  is false for \<^verbatim>\<open>None\<close> and for the empty string.
\<close>

definition load_config :: "config_file \<Rightarrow> string option \<Rightarrow> int + options" where
  "load_config file dest_arg =
     (case file of
        NoFile \<Rightarrow> Inl 1
      | Unparsable \<Rightarrow> Inl 1
      | Parsed cfg \<Rightarrow>
          (case dest_arg of
             Some (c # cs) \<Rightarrow> find_dest cfg (c # cs) (cfg_sections cfg)
           | _ \<Rightarrow>
             (case cfg_sections cfg of
                [] \<Rightarrow> Inl 1
              | (sec, opts) # rest \<Rightarrow> section_items cfg opts)))"

section \<open>The order of the parameters in the metadata table\<close>

text \<open>
  A parameter description of the library is a dict; the sort key reads its keys
  \<^verbatim>\<open>direction\<close> and \<^verbatim>\<open>name\<close> with \<^verbatim>\<open>get\<close>, so either may be absent.
\<close>

record parameter =
  name :: "string option"
  direction :: "string option"
  parameter_type :: string
  parameter_text :: string

text \<open>\<^verbatim>\<open>str.upper\<close> on the letters a to z; every other character is kept.\<close>

definition upper_char :: "char \<Rightarrow> char" where
  "upper_char c =
     (if CHR ''a'' \<le> c \<and> c \<le> CHR ''z'' then char_of (of_char c - (32::nat)) else c)"

definition upper :: "string \<Rightarrow> string" where
  "upper s = map upper_char s"

definition direction_order :: "(string \<times> nat) list" where
  "direction_order =
     [(''IMPORTING'', 1), (''EXPORTING'', 2), (''CHANGING'', 3), (''TABLES'', 4)]"

definition direction_rank :: "parameter \<Rightarrow> nat" where
  "direction_rank p =
     (case map_of direction_order (upper (case direction p of None \<Rightarrow> [] | Some d \<Rightarrow> d)) of
        None \<Rightarrow> 5
      | Some n \<Rightarrow> n)"

definition parameter_name :: "parameter \<Rightarrow> string" where
  "parameter_name p = (case name p of None \<Rightarrow> [] | Some n \<Rightarrow> n)"

definition parameter_key_function :: "parameter \<Rightarrow> nat \<times> string" where
  "parameter_key_function p = (direction_rank p, parameter_name p)"

text \<open>
  \<^verbatim>\<open>sorted(func_desc.parameters, key=parameter_key_function)\<close>: Python's
  \<^verbatim>\<open>sorted\<close> is a stable sort on the keys; tuples compare component by component
  and strings character by character.
\<close>

definition sorted_parameters :: "parameter list \<Rightarrow> parameter list" where
  "sorted_parameters ps = sort_key parameter_key_function ps"

section \<open>Properties of the result projector\<close>

subsection \<open>One row\<close>

lemma extract_row_truthy:
  "map_of row field = Some v \<Longrightarrow> truthy v \<Longrightarrow> extract_row field row = v"
  by (simp add: extract_row_def py_or_def dict_get_def)

lemma extract_row_falsy:
  "map_of row field = Some v \<Longrightarrow> \<not> truthy v \<Longrightarrow> extract_row field row = dict_get row ''WA''"
  by (simp add: extract_row_def py_or_def dict_get_def)

lemma extract_row_absent:
  "map_of row field = None \<Longrightarrow> extract_row field row = dict_get row ''WA''"
  by (simp add: extract_row_def py_or_def dict_get_def)

lemma extract_rows_map: "extract_rows field rows = map (extract_row field) (row_dicts rows)"
  by (induction rows) (auto split: pyval.splits)

lemma length_row_dicts: "length (row_dicts rows) = length (filter is_dict rows)"
  by (induction rows) (auto split: pyval.splits)

subsection \<open>The loop over a set of specifiers\<close>

lemma update_fresh: "k \<notin> fst ` set al \<Longrightarrow> AList.update k v al = al @ [(k, v)]"
  by (induction al) auto

lemma map_of_fresh: "k \<notin> fst ` set al \<Longrightarrow> map_of al k = None"
  by (simp add: map_of_eq_None_iff)

lemma process_param_fresh:
  "param \<notin> fst ` set acc \<Longrightarrow> process_param result acc param = Inr (acc @ entry_list result param)"
  by (auto simp: process_param_def capture_entry_def entry_list_def extend_entry_def update_fresh map_of_fresh
      split: option.splits pyval.splits)

lemma fst_entry_list: "fst ` set (entry_list result param) \<subseteq> {param}"
  by (auto simp: entry_list_def split: option.splits)

lemma process_loop_distinct:
  "distinct params \<Longrightarrow> set params \<inter> fst ` set acc = {} \<Longrightarrow>
   process_loop result acc params = Inr (acc @ concat (map (entry_list result) params))"
proof (induction params arbitrary: acc)
  case Nil
  then show ?case by simp
next
  case (Cons p ps)
  have fresh: "p \<notin> fst ` set acc" using Cons.prems by auto
  have "set ps \<inter> fst ` set (acc @ entry_list result p) = {}"
    using Cons.prems fst_entry_list[of result p] by auto
  with Cons fresh show ?case by (simp add: process_param_fresh)
qed

lemma process_loop_set:
  assumes "distinct params"
  shows "process_loop result [] params = Inr (concat (map (entry_list result) params))"
  using process_loop_distinct[OF assms, of "[]" result] by simp

lemma map_of_concat_entries:
  "map_of (concat (map (entry_list result) params)) s =
     (if s \<in> set params then capture_entry result s else None)"
  by (induction params) (auto simp: entry_list_def split: option.splits)

lemma keys_concat_entries:
  "map fst (concat (map (entry_list result) params)) =
     filter (\<lambda>p. capture_entry result p \<noteq> None) params"
  by (induction params) (auto simp: entry_list_def split: option.splits)

subsection \<open>The loop never fails\<close>

lemma lists_under_indexed_update:
  "lists_under_indexed acc \<Longrightarrow> (is_indexed k \<longrightarrow> is_list v) \<Longrightarrow> lists_under_indexed (AList.update k v acc)"
  unfolding lists_under_indexed_def by (induction acc) auto

lemma keys_update: "fst ` set (AList.update k v acc) = insert k (fst ` set acc)"
  by (simp add: dom_update)

lemma process_param_total:
  assumes "lists_under_indexed acc"
  shows "\<exists>acc'. process_param result acc param = Inr acc' \<and> lists_under_indexed acc'
           \<and> fst ` set acc' \<subseteq> insert param (fst ` set acc)
           \<and> (capture_entry result param = None \<longrightarrow> acc' = acc)"
proof (cases "is_indexed param")
  case False
  then show ?thesis using assms
    by (auto simp: process_param_def capture_entry_def keys_update
        intro!: lists_under_indexed_update split: option.splits)
next
  case True
  show ?thesis
  proof (cases "\<exists>rows. map_of result (split_table param) = Some (PList rows)")
    case False
    then show ?thesis using True assms
      by (auto simp: process_param_def capture_entry_def split: option.splits pyval.splits)
  next
    case True
    then obtain rows where rows: "map_of result (split_table param) = Some (PList rows)" by blast
    let ?vs = "extract_rows (split_field param) rows"
    have step: "process_param result acc param = extend_entry acc param ?vs"
      using \<open>is_indexed param\<close> rows by (simp add: process_param_def)
    show ?thesis
    proof (cases "map_of acc param")
      case None
      then show ?thesis using step assms rows \<open>is_indexed param\<close>
        by (auto simp: extend_entry_def capture_entry_def lists_under_indexed_def)
    next
      case (Some v)
      then have "(param, v) \<in> set acc" by (rule map_of_SomeD)
      with assms \<open>is_indexed param\<close> have "is_list v"
        by (auto simp: lists_under_indexed_def)
      then obtain old where v: "v = PList old" by (cases v) auto
      show ?thesis using step Some v assms rows \<open>is_indexed param\<close>
        by (auto simp: extend_entry_def keys_update capture_entry_def
            intro!: lists_under_indexed_update)
    qed
  qed
qed

lemma process_loop_total:
  "lists_under_indexed acc \<Longrightarrow> s \<notin> fst ` set acc \<Longrightarrow> capture_entry result s = None \<Longrightarrow>
   \<exists>captured. process_loop result acc params = Inr captured \<and> s \<notin> fst ` set captured"
proof (induction params arbitrary: acc)
  case Nil
  then show ?case by simp
next
  case (Cons p ps)
  from process_param_total[OF Cons.prems(1), of result p]
  obtain acc' where all: "process_param result acc p = Inr acc' \<and> lists_under_indexed acc'
           \<and> fst ` set acc' \<subseteq> insert p (fst ` set acc)
           \<and> (capture_entry result p = None \<longrightarrow> acc' = acc)" ..
  then have step: "process_param result acc p = Inr acc'"
    and inv: "lists_under_indexed acc'"
    and keys: "fst ` set acc' \<subseteq> insert p (fst ` set acc)"
    and same: "capture_entry result p = None \<longrightarrow> acc' = acc"
    by (rule conjunct1, rule conjunct2[THEN conjunct1], rule conjunct2[THEN conjunct2, THEN conjunct1],
        rule conjunct2[THEN conjunct2, THEN conjunct2])
  have fresh: "s \<notin> fst ` set acc'"
  proof (cases "p = s")
    case True
    with same Cons.prems(3) have "acc' = acc" by simp
    with Cons.prems(2) show ?thesis by simp
  next
    case False
    with keys Cons.prems(2) show ?thesis by auto
  qed
  from Cons.IH[OF inv fresh Cons.prems(3)]
  obtain captured where c: "process_loop result acc' ps = Inr captured \<and> s \<notin> fst ` set captured" ..
  with step show ?case by simp
qed

subsection \<open>Displaying\<close>

lemma display_entries_serializable:
  "\<forall>(k, v) \<in> set results. is_list v \<or> is_dict v \<longrightarrow> json_serializable v \<Longrightarrow>
   display_entries results = Inr (shown_entries results)"
  by (induction results) (auto simp: format_value_def shown_entries_def)

subsection \<open>Parsing a specifier\<close>

lemma split_join:
  assumes "CHR ''['' \<in> set s"
  shows "s = split_table s @ ''['' @ split_rest s"
proof -
  let ?d = "dropWhile (\<lambda>c. c \<noteq> CHR ''['') s"
  have ne: "?d \<noteq> []" using assms by (simp add: dropWhile_eq_Nil_conv)
  then have "hd ?d = CHR ''[''" using hd_dropWhile[of "\<lambda>c. c \<noteq> CHR ''[''" s] by simp
  with ne have "?d = CHR ''['' # tl ?d" by (cases ?d) auto
  then have "s = takeWhile (\<lambda>c. c \<noteq> CHR ''['') s @ CHR ''['' # tl ?d"
    using takeWhile_dropWhile_id[of "\<lambda>c. c \<noteq> CHR ''[''" s] by simp
  then show ?thesis by (simp add: split_table_def split_rest_def)
qed

lemma split_table_no_bracket: "CHR ''['' \<notin> set (split_table s)"
  using set_takeWhileD[of "CHR ''[''" "\<lambda>c. c \<noteq> CHR ''[''" s] by (auto simp: split_table_def)

lemma takeWhile_eq_replicate: "\<exists>n. takeWhile (\<lambda>c. c = x) ys = replicate n x"
proof (induction ys)
  case Nil
  show ?case by simp
next
  case (Cons y ys)
  then obtain n where n: "takeWhile (\<lambda>c. c = x) ys = replicate n x" ..
  show ?case
  proof (cases "y = x")
    case True
    with n have "takeWhile (\<lambda>c. c = x) (y # ys) = replicate (Suc n) x" by simp
    then show ?thesis ..
  next
    case False
    then have "takeWhile (\<lambda>c. c = x) (y # ys) = replicate 0 x" by simp
    then show ?thesis ..
  qed
qed

lemma rstrip_decompose: "\<exists>n. xs = rstrip_rbracket xs @ replicate n (CHR '']'')"
proof -
  obtain n where n: "takeWhile (\<lambda>c. c = CHR '']'') (rev xs) = replicate n (CHR '']'')"
    using takeWhile_eq_replicate[of "CHR '']''" "rev xs"] ..
  have "rev xs = takeWhile (\<lambda>c. c = CHR '']'') (rev xs) @ dropWhile (\<lambda>c. c = CHR '']'') (rev xs)"
    by simp
  then have "rev (rev xs) = rev (replicate n (CHR '']'') @ dropWhile (\<lambda>c. c = CHR '']'') (rev xs))"
    using n by simp
  then have "xs = rstrip_rbracket xs @ replicate n (CHR '']'')"
    by (simp add: rstrip_rbracket_def)
  then show ?thesis ..
qed

lemma rstrip_no_rbracket: "\<not> endswith_rbracket (rstrip_rbracket xs)"
proof -
  let ?d = "dropWhile (\<lambda>c. c = CHR '']'') (rev xs)"
  show ?thesis
  proof (cases "?d = []")
    case True
    then show ?thesis by (simp add: endswith_rbracket_def rstrip_rbracket_def)
  next
    case False
    then have "hd ?d \<noteq> CHR '']''" using hd_dropWhile[of "\<lambda>c. c = CHR '']''" "rev xs"] by simp
    moreover have "last (rev ?d) = hd ?d" using False by (simp add: last_rev)
    ultimately show ?thesis by (simp add: endswith_rbracket_def rstrip_rbracket_def)
  qed
qed

lemma rstrip_append_rbracket: "rstrip_rbracket (xs @ '']'') = rstrip_rbracket xs"
  by (simp add: rstrip_rbracket_def)

lemma split_table_append:
  "CHR ''['' \<in> set s \<Longrightarrow> split_table (s @ t) = split_table s"
  by (simp add: split_table_def takeWhile_append1)

lemma split_rest_append:
  assumes "CHR ''['' \<in> set s"
  shows "split_rest (s @ t) = split_rest s @ t"
proof -
  have ne: "dropWhile (\<lambda>c. c \<noteq> CHR ''['') s \<noteq> []"
    using assms by (simp add: dropWhile_eq_Nil_conv)
  have "dropWhile (\<lambda>c. c \<noteq> CHR ''['') (s @ t) = dropWhile (\<lambda>c. c \<noteq> CHR ''['') s @ t"
    using assms by (simp add: dropWhile_append1)
  with ne show ?thesis by (simp add: split_rest_def)
qed

lemma is_indexed_append_rbracket: "is_indexed s \<Longrightarrow> is_indexed (s @ '']'')"
  by (simp add: is_indexed_def endswith_rbracket_def)

lemma capture_entry_append_rbracket:
  assumes "is_indexed s"
  shows "capture_entry result (s @ '']'') = capture_entry result s"
proof -
  have b: "CHR ''['' \<in> set s" using assms by (simp add: is_indexed_def)
  have f: "split_field (s @ '']'') = split_field s"
    by (simp add: split_field_def split_rest_append[OF b] rstrip_append_rbracket)
  have t: "split_table (s @ '']'') = split_table s"
    by (rule split_table_append[OF b])
  show ?thesis
    unfolding capture_entry_def f t
    using assms is_indexed_append_rbracket[OF assms] by simp
qed

subsection \<open>Connection parameters\<close>

lemma to_dict_items_append:
  "to_dict_items (xs @ ys) = to_dict_items xs @ to_dict_items ys"
  by (induction xs rule: to_dict_items.induct) (auto split: option.splits)

lemma to_dict_items_dest_lang: "to_dict_items [(''dest'', d), (''lang'', l)] = []"
  by (cases d; cases l) simp_all

lemma to_dict_eq:
  "to_dict p = to_dict_items
     [(''user'', user p), (''passwd'', passwd p), (''ashost'', ashost p),
      (''client'', client p), (''sysnr'', sysnr p), (''saprouter'', saprouter p)]"
proof -
  have "dict_items p =
     [(''user'', user p), (''passwd'', passwd p), (''ashost'', ashost p),
      (''client'', client p), (''sysnr'', sysnr p), (''saprouter'', saprouter p)]
     @ [(''dest'', dest p), (''lang'', lang p)]"
    by (simp add: dict_items_def)
  then show ?thesis
    unfolding to_dict_def by (simp only: to_dict_items_append to_dict_items_dest_lang append_Nil2)
qed

lemma to_dict_ignores: "to_dict (p\<lparr>dest := d, lang := l\<rparr>) = to_dict p"
  by (simp add: to_dict_eq)

lemma map_of_to_dict_items:
  "distinct (map fst kvs) \<Longrightarrow> map_of (to_dict_items kvs) k =
     (if k \<in> set [''dest'', ''lang''] then None
      else (case map_of kvs k of Some (Some v) \<Rightarrow> Some v | _ \<Rightarrow> None))"
proof (induction kvs)
  case Nil
  show ?case by simp
next
  case (Cons kv kvs)
  obtain k' v where kv: "kv = (k', v)" by (cases kv)
  have d: "distinct (map fst kvs)" using Cons.prems by simp
  have none: "map_of kvs k' = None"
    using Cons.prems kv by (simp add: map_of_eq_None_iff)
  note IH = Cons.IH[OF d]
  show ?case
  proof (cases "k = k'")
    case True
    with IH none kv show ?thesis by (cases v) auto
  next
    case False
    with IH kv show ?thesis by (cases v) auto
  qed
qed

lemma distinct_dict_items: "distinct (map fst (dict_items p))"
  by (simp add: dict_items_def)

lemma keys_to_dict_items: "map fst (to_dict_items kvs) = 
   map fst (filter (\<lambda>(k, v). v \<noteq> None \<and> k \<notin> set [''dest'', ''lang'']) kvs)"
  by (induction kvs rule: to_dict_items.induct) (auto split: option.splits)

lemma map_of_to_dict_fields:
  "map_of (to_dict p) k =
     (if k = ''user'' then user p else if k = ''passwd'' then passwd p
      else if k = ''ashost'' then ashost p else if k = ''client'' then client p
      else if k = ''sysnr'' then sysnr p else if k = ''saprouter'' then saprouter p
      else None)"
  unfolding to_dict_def
  by (simp add: map_of_to_dict_items[OF distinct_dict_items])
     (auto simp: dict_items_def split: option.splits)

lemma distinct_to_dict: "distinct (map fst (to_dict p))"
  unfolding to_dict_def keys_to_dict_items
  by (rule distinct_map_filter) (rule distinct_dict_items)

subsection \<open>The configuration file\<close>

lemma interpolate_Nil: "depth \<le> 10 \<Longrightarrow> interpolate_some m depth [] = Inr []"
  by (subst interpolate_some.simps) simp

lemma interpolate_plain:
  "depth \<le> 10 \<Longrightarrow> c \<noteq> CHR ''%'' \<Longrightarrow>
   interpolate_some m depth (c # cs) =
     (case interpolate_some m depth cs of Inl e \<Rightarrow> Inl e | Inr s \<Rightarrow> Inr (c # s))"
  by (subst interpolate_some.simps) simp

lemma interpolate_percent_end:
  "depth \<le> 10 \<Longrightarrow> interpolate_some m depth ''%'' = Inl InterpolationSyntaxError"
  by (subst interpolate_some.simps) simp

lemma interpolate_percent_other:
  "depth \<le> 10 \<Longrightarrow> c \<noteq> CHR ''%'' \<Longrightarrow> c \<noteq> CHR ''('' \<Longrightarrow>
   interpolate_some m depth (CHR ''%'' # c # cs) = Inl InterpolationSyntaxError"
  by (subst interpolate_some.simps) simp

lemma interpolate_percent_percent:
  "depth \<le> 10 \<Longrightarrow>
   interpolate_some m depth (CHR ''%'' # CHR ''%'' # cs) =
     (case interpolate_some m depth cs of Inl e \<Rightarrow> Inl e | Inr s \<Rightarrow> Inr (CHR ''%'' # s))"
  by (subst interpolate_some.simps) simp

lemma interpolate_reference:
  "depth \<le> 10 \<Longrightarrow>
   interpolate_some m depth (CHR ''%'' # CHR ''('' # cs) =
     (case key_match cs of
        None \<Rightarrow> Inl InterpolationSyntaxError
      | Some (var, rest') \<Rightarrow>
          (case map_of m (lower var) of
             None \<Rightarrow> Inl InterpolationMissingOptionError
           | Some v \<Rightarrow>
               (case (if CHR ''%'' \<in> set v
                      then interpolate_some m (Suc depth) v else Inr v) of
                  Inl e \<Rightarrow> Inl e
                | Inr s \<Rightarrow>
                    (case interpolate_some m depth rest' of
                       Inl e \<Rightarrow> Inl e
                     | Inr s' \<Rightarrow> Inr (s @ s')))))"
  by (subst interpolate_some.simps) simp

lemma interpolate_prefix:
  "depth \<le> 10 \<Longrightarrow> CHR ''%'' \<notin> set pre \<Longrightarrow>
   interpolate_some m depth (pre @ rest) =
     (case interpolate_some m depth rest of Inl e \<Rightarrow> Inl e | Inr s \<Rightarrow> Inr (pre @ s))"
  by (induction pre) (auto simp: interpolate_plain split: sum.splits)

lemma interpolate_no_percent:
  "depth \<le> 10 \<Longrightarrow> CHR ''%'' \<notin> set v \<Longrightarrow> interpolate_some m depth v = Inr v"
  using interpolate_prefix[of depth v m "[]"] by (simp add: interpolate_Nil)

lemma before_get_no_percent: "CHR ''%'' \<notin> set v \<Longrightarrow> before_get m v = Inr v"
  by (simp add: before_get_def interpolate_no_percent)

lemma key_match_reference:
  assumes "var \<noteq> []" and "CHR '')'' \<notin> set var"
  shows "key_match (var @ '')s'' @ post) = Some (var, post)"
proof -
  have all: "\<And>x. x \<in> set var \<Longrightarrow> x \<noteq> CHR '')''" using assms(2) by auto
  have t: "takeWhile (\<lambda>c. c \<noteq> CHR '')'') (var @ '')s'' @ post) = var"
    using all by (simp add: takeWhile_append2)
  have d: "dropWhile (\<lambda>c. c \<noteq> CHR '')'') (var @ '')s'' @ post) = '')s'' @ post"
    using all by (simp add: dropWhile_append2)
  show ?thesis
    unfolding key_match_def Let_def t d using assms(1) by simp
qed

lemma interpolate_items_no_percent:
  "(\<forall>(k, v) \<in> set kvs. CHR ''%'' \<notin> set v) \<Longrightarrow> interpolate_items m kvs = Inr kvs"
  by (induction kvs) (auto simp: before_get_no_percent)

lemma keys_dict_update: "fst ` set (dict_update d e) = fst ` set d \<union> fst ` set e"
  unfolding dict_update_def
proof (induction e arbitrary: d)
  case Nil
  show ?case by simp
next
  case (Cons kv e)
  obtain k v where kv: "kv = (k, v)" by (cases kv)
  have "fst ` set (fold (\<lambda>(k, v). AList.update k v) e (AList.update k v d))
      = fst ` set (AList.update k v d) \<union> fst ` set e"
    by (rule Cons.IH)
  also have "fst ` set (AList.update k v d) = {k} \<union> fst ` set d"
    by (rule dom_update)
  finally show ?case using kv by auto
qed

lemma has_option_unify: "has_option cfg opts k = (k \<in> fst ` set (unify_values cfg opts))"
  by (auto simp: has_option_def unify_values_def keys_dict_update)

lemma get_option_has: "get_option cfg opts k = Inr v \<Longrightarrow> has_option cfg opts k"
  by (auto simp: get_option_def has_option_unify split: option.splits dest!: map_of_SomeD
      intro: rev_image_eqI)

lemma map_of_dict_update:
  "distinct (map fst e) \<Longrightarrow>
   map_of (dict_update d e) k = (case map_of e k of Some v \<Rightarrow> Some v | None \<Rightarrow> map_of d k)"
  unfolding dict_update_def
proof (induction e arbitrary: d)
  case Nil
  show ?case by simp
next
  case (Cons kv e)
  obtain k' v' where kv: "kv = (k', v')" by (cases kv)
  have d: "distinct (map fst e)" using Cons.prems by simp
  have none: "map_of e k' = None" using Cons.prems kv by (simp add: map_of_eq_None_iff)
  show ?case
    using Cons.IH[OF d, of "AList.update k' v' d"] none kv
    by (auto simp: update_conv' split: option.splits)
qed

lemma dict_update_empty:
  "distinct (map fst e) \<Longrightarrow> set (map fst e) \<inter> fst ` set d = {} \<Longrightarrow> dict_update d e = d @ e"
  unfolding dict_update_def
proof (induction e arbitrary: d)
  case Nil
  show ?case by simp
next
  case (Cons kv e)
  obtain k' v' where kv: "kv = (k', v')" by (cases kv)
  have fresh: "k' \<notin> fst ` set d" using Cons.prems(2) kv by auto
  have d: "distinct (map fst e)" using Cons.prems by simp
  have "set (map fst e) \<inter> fst ` set (d @ [(k', v')]) = {}"
    using Cons.prems kv by auto
  from Cons.IH[OF d this] fresh kv show ?case by (simp add: update_fresh)
qed

lemma find_dest_skip:
  "(\<forall>(n, so) \<in> set pre. has_option cfg so ''dest'' \<longrightarrow>
        (\<exists>v. get_option cfg so ''dest'' = Inr v \<and> v \<noteq> d)) \<Longrightarrow>
   find_dest cfg d (pre @ rest) = find_dest cfg d rest"
  by (induction pre) auto

lemma find_dest_hit:
  "get_option cfg opts ''dest'' = Inr d \<Longrightarrow>
   find_dest cfg d ((sec, opts) # rest) = section_items cfg opts"
  by (simp add: get_option_has)

lemma find_dest_raise:
  "has_option cfg opts ''dest'' \<Longrightarrow> get_option cfg opts ''dest'' = Inl e \<Longrightarrow>
   find_dest cfg d ((sec, opts) # rest) = Inl 1"
  by simp

lemma find_dest_miss:
  "(\<forall>(n, so) \<in> set secs. has_option cfg so ''dest'' \<longrightarrow>
        (\<exists>v. get_option cfg so ''dest'' = Inr v \<and> v \<noteq> d)) \<Longrightarrow>
   find_dest cfg d secs = Inl 1"
  by (induction secs) auto

lemma interpolate_lone_percent:
  assumes "depth \<le> 10" and "CHR ''%'' \<notin> set pre"
    and "post = [] \<or> (hd post \<noteq> CHR ''%'' \<and> hd post \<noteq> CHR ''('')"
  shows "interpolate_some m depth (pre @ CHR ''%'' # post) = Inl InterpolationSyntaxError"
proof -
  have "interpolate_some m depth (CHR ''%'' # post) = Inl InterpolationSyntaxError"
  proof (cases post)
    case Nil
    then show ?thesis using assms(1) by (simp add: interpolate_percent_end)
  next
    case (Cons c cs)
    then show ?thesis using assms(1,3) by (simp add: interpolate_percent_other)
  qed
  then show ?thesis using assms(1,2) by (simp add: interpolate_prefix)
qed

lemma interpolate_items_raises:
  "(k, v) \<in> set kvs \<Longrightarrow> before_get m v = Inl e \<Longrightarrow> \<exists>e'. interpolate_items m kvs = Inl e'"
  by (induction kvs) (auto split: sum.splits)

subsection \<open>The sort of the parameters\<close>

lemma sorted_parameters_sorted: "sorted (map parameter_key_function (sorted_parameters ps))"
  by (simp add: sorted_parameters_def)

lemma rank_values:
  "direction_rank (p\<lparr>direction := Some ''IMPORTING''\<rparr>) = 1"
  "direction_rank (p\<lparr>direction := Some ''EXPORTING''\<rparr>) = 2"
  "direction_rank (p\<lparr>direction := Some ''CHANGING''\<rparr>) = 3"
  "direction_rank (p\<lparr>direction := Some ''TABLES''\<rparr>) = 4"
  by (simp_all add: direction_rank_def direction_order_def upper_def upper_char_def)

lemma of_char_upper_char:
  "of_char (upper_char c) =
     (if (97::nat) \<le> of_char c \<and> of_char c \<le> (122::nat)
      then of_char c - 32 else (of_char c :: nat))"
proof -
  have a: "(of_char (CHR ''a'') :: nat) = 97" and z: "(of_char (CHR ''z'') :: nat) = 122"
    by simp_all
  have "(of_char c :: nat) - 32 < 256"
    using nat_of_char_less_256[of c] by arith
  then have small: "(of_char c - 32) mod 256 = (of_char c - 32 :: nat)"
    by (rule mod_less)
  show ?thesis
    unfolding upper_char_def less_eq_char_def a z by (simp add: small)
qed

lemma of_char_upper:
  "map of_char (upper s) =
     map (\<lambda>c. if (97::nat) \<le> of_char c \<and> of_char c \<le> (122::nat) then of_char c - 32
               else (of_char c :: nat)) s"
  unfolding upper_def by (simp add: of_char_upper_char)

lemma direction_rank_cases:
  "direction_rank p =
     (let d = upper (case direction p of None \<Rightarrow> [] | Some d \<Rightarrow> d)
      in if d = ''IMPORTING'' then 1 else if d = ''EXPORTING'' then 2
         else if d = ''CHANGING'' then 3 else if d = ''TABLES'' then 4 else 5)"
  by (simp add: direction_rank_def direction_order_def Let_def)

section \<open>The claims\<close>

text \<open>
  C1. The specification says: for each row of the table that is a mapping, the extracted
  element is \<^verbatim>\<open>row[F]\<close> whenever the key \<open>F\<close> is present, and the \<^verbatim>\<open>WA\<close> entry
  only when \<open>F\<close> is absent. The code writes \<^verbatim>\<open>row.get(field) or row.get("WA")\<close>, so
  a field that is present with a false value (the empty string, zero) is passed over as
  well: the first row below holds \<^verbatim>\<open>FIELD\<close> with the empty string and yields
  \<^verbatim>\<open>None\<close>; the second holds \<^verbatim>\<open>FIELD\<close> with 0 and yields its \<^verbatim>\<open>WA\<close> entry.
\<close>

theorem falsy_field_falls_back:
  "process_results
     [(''ITAB'', PList [PDict [(''FIELD'', PStr [])],
                        PDict [(''FIELD'', PInt 0), (''WA'', PStr ''w'')]])]
     (Some [''ITAB[FIELD]''])
   = Inr (CapturedResults [(''ITAB[FIELD]'', Dumped (PList [PNone, PStr ''w'']))])"
  by (simp add: process_results_def display_captured_results_def format_value_def
      process_param_def is_indexed_def endswith_rbracket_def split_table_def split_field_def
      split_rest_def rstrip_rbracket_def extend_entry_def extract_row_def py_or_def dict_get_def)

text \<open>
  C2, as the code has it. For a specifier of the set in the indexed-table form whose
  table is a list in the raw result, the entry stored under the specifier is the list of
  the elements extracted from the rows that are dicts, one element for every such row, in
  the order of the rows. Its length is the number of rows that are dicts, whether or
  not a row holds the field or \<^verbatim>\<open>WA\<close>.
\<close>

theorem indexed_entry_one_per_row_dict:
  assumes "distinct params" and "s \<in> set params" and "is_indexed s"
    and "map_of result (split_table s) = Some (PList rows)"
  shows "\<exists>captured. process_loop result [] params = Inr captured
           \<and> map_of captured s = Some (PList (map (extract_row (split_field s)) (row_dicts rows)))
           \<and> length (map (extract_row (split_field s)) (row_dicts rows)) = length (filter is_dict rows)"
proof -
  have "capture_entry result s = Some (PList (map (extract_row (split_field s)) (row_dicts rows)))"
    using assms(3,4) by (simp add: capture_entry_def extract_rows_map)
  then have "map_of (concat (map (entry_list result) params)) s
      = Some (PList (map (extract_row (split_field s)) (row_dicts rows)))"
    using assms(2) by (simp add: map_of_concat_entries)
  then show ?thesis
    using process_loop_set[OF assms(1), of result] by (simp add: length_row_dicts)
qed

theorem indexed_entry_one_per_row_dict_witness:
  "distinct [''ITAB[F]'', ''STATUS''] \<and> ''ITAB[F]'' \<in> set [''ITAB[F]'', ''STATUS'']
   \<and> is_indexed ''ITAB[F]''
   \<and> map_of scenario_result (split_table ''ITAB[F]'')
       = Some (PList [PDict [(''WA'', PStr ''x'')], PDict [(''F'', PStr ''y'')]])
   \<and> (\<exists>captured. process_loop scenario_result [] [''ITAB[F]'', ''STATUS''] = Inr captured
         \<and> map_of captured ''ITAB[F]'' = Some (PList [PStr ''x'', PStr ''y'']))"
proof -
  have h1: "distinct [''ITAB[F]'', ''STATUS'']" by simp
  have h2: "''ITAB[F]'' \<in> set [''ITAB[F]'', ''STATUS'']" by simp
  have h3: "is_indexed ''ITAB[F]''" by (simp add: is_indexed_def endswith_rbracket_def)
  have h4: "map_of scenario_result (split_table ''ITAB[F]'')
       = Some (PList [PDict [(''WA'', PStr ''x'')], PDict [(''F'', PStr ''y'')]])"
    by (simp add: split_table_def scenario_result_def)
  have f: "split_field ''ITAB[F]'' = ''F''"
    by (simp add: split_field_def split_rest_def rstrip_rbracket_def)
  have v: "map (extract_row ''F'')
             (row_dicts [PDict [(''WA'', PStr ''x'')], PDict [(''F'', PStr ''y'')]])
           = [PStr ''x'', PStr ''y'']"
    by (simp add: extract_row_def py_or_def dict_get_def)
  from indexed_entry_one_per_row_dict[OF h1 h2 h3 h4]
  obtain captured where
    c: "process_loop scenario_result [] [''ITAB[F]'', ''STATUS''] = Inr captured
      \<and> map_of captured ''ITAB[F]''
          = Some (PList (map (extract_row (split_field ''ITAB[F]''))
               (row_dicts [PDict [(''WA'', PStr ''x'')], PDict [(''F'', PStr ''y'')]])))
      \<and> length (map (extract_row (split_field ''ITAB[F]''))
               (row_dicts [PDict [(''WA'', PStr ''x'')], PDict [(''F'', PStr ''y'')]]))
          = length (filter is_dict [PDict [(''WA'', PStr ''x'')], PDict [(''F'', PStr ''y'')]])" ..
  from c have l: "process_loop scenario_result [] [''ITAB[F]'', ''STATUS''] = Inr captured"
    by (rule conjunct1)
  from c have "map_of captured ''ITAB[F]''
          = Some (PList (map (extract_row (split_field ''ITAB[F]''))
               (row_dicts [PDict [(''WA'', PStr ''x'')], PDict [(''F'', PStr ''y'')]])))"
    by (rule conjunct2[THEN conjunct1])
  then have m: "map_of captured ''ITAB[F]'' = Some (PList [PStr ''x'', PStr ''y''])"
    unfolding f v .
  have e: "\<exists>captured. process_loop scenario_result [] [''ITAB[F]'', ''STATUS''] = Inr captured
         \<and> map_of captured ''ITAB[F]'' = Some (PList [PStr ''x'', PStr ''y''])"
    by (rule exI[of _ captured]) (rule conjI[OF l m])
  from h1 h2 h3 h4 e show ?thesis by (intro conjI)
qed

text \<open>
  A row that is a dict and holds neither the field nor \<^verbatim>\<open>WA\<close> still yields an
  element, \<^verbatim>\<open>None\<close>: the sequence has length 1 where the count of the
  specification is 0.
\<close>

theorem indexed_entry_length_counterexample:
  "process_loop [(''T'', PList [PDict [(''OTHER'', PStr ''z'')]])] [] [''T[F]'']
     = Inr [(''T[F]'', PList [PNone])]
   \<and> length [PNone] \<noteq> rows_with_field_or_wa ''F'' [PDict [(''OTHER'', PStr ''z'')]]"
  by (simp add: process_param_def is_indexed_def endswith_rbracket_def split_table_def
      split_field_def split_rest_def rstrip_rbracket_def extend_entry_def extract_row_def
      py_or_def dict_get_def rows_with_field_or_wa_def has_key_def)

text \<open>
  C3. The specification says that an application-level fault of the remote procedure
  ends the process with exit code 1, the connection being closed before. In the code
  \<^verbatim>\<open>execute_function\<close> catches the fault and returns \<^verbatim>\<open>False\<close>, \<^verbatim>\<open>main\<close> drops
  the value, and the process ends with exit code 0 after closing the connection.
\<close>

theorem invocation_error_exit_code:
  "main_session ConnOpened False d RaisedABAPApplicationError params_to_capture
     = (0, [Opened, Invoked, ErrorLogged, Closed])"
  by (simp add: main_session_def with_body_def execute_function_def)

text \<open>The sibling path with \<^verbatim>\<open>--desc\<close> does turn a failure into exit code 1.\<close>

lemma describe_failure_exit_code:
  "main_session ConnOpened True DescribeFailed call params_to_capture
     = (1, [Opened, ErrorLogged, Closed])"
  by (simp add: main_session_def with_body_def get_function_metadata_def)

text \<open>
  C4, as the code has it. The capture array is turned into a set before the projector
  sees it. Whatever order the loop visits the set in, every distinct specifier of the
  array is processed once: the keys of the captured results follow the order of the
  visit, the entry under each specifier depends on the raw result and the specifier
  alone, and an entry taken from a table lists the elements of its dict rows in the
  order of the table.
\<close>

theorem capture_set_iteration:
  assumes "set_iteration capture params"
  shows "\<exists>captured. process_loop result [] params = Inr captured
           \<and> map fst captured = filter (\<lambda>p. capture_entry result p \<noteq> None) params
           \<and> (\<forall>s. map_of captured s = (if s \<in> set capture then capture_entry result s else None))
           \<and> (\<forall>s rows. is_indexed s \<and> map_of result (split_table s) = Some (PList rows) \<longrightarrow>
                 capture_entry result s = Some (PList (map (extract_row (split_field s)) (row_dicts rows))))"
proof -
  have d: "distinct params" and e: "set params = set capture"
    using assms by (simp_all add: set_iteration_def)
  have "process_loop result [] params = Inr (concat (map (entry_list result) params))"
    by (rule process_loop_set[OF d])
  moreover have "map fst (concat (map (entry_list result) params))
      = filter (\<lambda>p. capture_entry result p \<noteq> None) params"
    by (rule keys_concat_entries)
  moreover have "\<forall>s. map_of (concat (map (entry_list result) params)) s
      = (if s \<in> set capture then capture_entry result s else None)"
    using e by (simp add: map_of_concat_entries)
  moreover have "\<forall>s rows. is_indexed s \<and> map_of result (split_table s) = Some (PList rows) \<longrightarrow>
      capture_entry result s = Some (PList (map (extract_row (split_field s)) (row_dicts rows)))"
    by (simp add: capture_entry_def extract_rows_map)
  ultimately show ?thesis by simp
qed

theorem capture_set_iteration_witness:
  "set_iteration [''STATUS'', ''ITAB[F]'', ''STATUS''] [''ITAB[F]'', ''STATUS'']
   \<and> (\<exists>captured. process_loop scenario_result [] [''ITAB[F]'', ''STATUS''] = Inr captured
         \<and> map fst captured = [''ITAB[F]'', ''STATUS''])"
proof -
  have h: "set_iteration [''STATUS'', ''ITAB[F]'', ''STATUS''] [''ITAB[F]'', ''STATUS'']"
    by (simp add: set_iteration_def insert_commute)
  have k: "filter (\<lambda>p. capture_entry scenario_result p \<noteq> None) [''ITAB[F]'', ''STATUS'']
           = [''ITAB[F]'', ''STATUS'']"
    by (simp add: capture_entry_def is_indexed_def endswith_rbracket_def split_table_def
        scenario_result_def)
  from capture_set_iteration[OF h, of scenario_result]
  obtain captured where c: "process_loop scenario_result [] [''ITAB[F]'', ''STATUS''] = Inr captured
     \<and> map fst captured = filter (\<lambda>p. capture_entry scenario_result p \<noteq> None) [''ITAB[F]'', ''STATUS'']
     \<and> (\<forall>s. map_of captured s =
           (if s \<in> set [''STATUS'', ''ITAB[F]'', ''STATUS''] then capture_entry scenario_result s else None))
     \<and> (\<forall>s rows. is_indexed s \<and> map_of scenario_result (split_table s) = Some (PList rows) \<longrightarrow>
           capture_entry scenario_result s
             = Some (PList (map (extract_row (split_field s)) (row_dicts rows))))" ..
  from c have l: "process_loop scenario_result [] [''ITAB[F]'', ''STATUS''] = Inr captured"
    by (rule conjunct1)
  from c have "map fst captured
      = filter (\<lambda>p. capture_entry scenario_result p \<noteq> None) [''ITAB[F]'', ''STATUS'']"
    by (rule conjunct2[THEN conjunct1])
  then have m: "map fst captured = [''ITAB[F]'', ''STATUS'']"
    unfolding k .
  have e: "\<exists>captured. process_loop scenario_result [] [''ITAB[F]'', ''STATUS''] = Inr captured
         \<and> map fst captured = [''ITAB[F]'', ''STATUS'']"
    by (rule exI[of _ captured]) (rule conjI[OF l m])
  from h e show ?thesis by (rule conjI)
qed

text \<open>
  The order of the array is lost. A visit of the set of the array
  \<^verbatim>\<open>["STATUS", "ITAB[F]"]\<close> may start with \<^verbatim>\<open>ITAB[F]\<close>, and the captured results
  then list it first. For the array \<^verbatim>\<open>["ITAB[F]", "ITAB[F]"]\<close> the set holds one
  specifier: the array itself is no visit of it, and running the loop along the array
  would store each element twice.
\<close>

theorem capture_array_order_counterexample:
  "set_iteration [''STATUS'', ''ITAB[F]''] [''ITAB[F]'', ''STATUS'']
   \<and> process_loop scenario_result [] [''ITAB[F]'', ''STATUS'']
       = Inr [(''ITAB[F]'', PList [PStr ''x'', PStr ''y'']), (''STATUS'', PStr ''OK'')]
   \<and> process_loop scenario_result [] [''STATUS'', ''ITAB[F]'']
       = Inr [(''STATUS'', PStr ''OK''), (''ITAB[F]'', PList [PStr ''x'', PStr ''y''])]
   \<and> set_iteration [''ITAB[F]'', ''ITAB[F]''] [''ITAB[F]'']
   \<and> \<not> set_iteration [''ITAB[F]'', ''ITAB[F]''] [''ITAB[F]'', ''ITAB[F]'']
   \<and> process_loop scenario_result [] [''ITAB[F]'']
       = Inr [(''ITAB[F]'', PList [PStr ''x'', PStr ''y''])]
   \<and> process_loop scenario_result [] [''ITAB[F]'', ''ITAB[F]'']
       = Inr [(''ITAB[F]'', PList [PStr ''x'', PStr ''y'', PStr ''x'', PStr ''y''])]"
proof -
  note defs = process_param_def is_indexed_def endswith_rbracket_def
      split_table_def split_field_def split_rest_def rstrip_rbracket_def extend_entry_def
      extract_row_def py_or_def dict_get_def scenario_result_def
  have 1: "set_iteration [''STATUS'', ''ITAB[F]''] [''ITAB[F]'', ''STATUS'']"
    by (simp add: set_iteration_def insert_commute)
  have 2: "process_loop scenario_result [] [''ITAB[F]'', ''STATUS'']
       = Inr [(''ITAB[F]'', PList [PStr ''x'', PStr ''y'']), (''STATUS'', PStr ''OK'')]"
    by (simp add: defs)
  have 3: "process_loop scenario_result [] [''STATUS'', ''ITAB[F]'']
       = Inr [(''STATUS'', PStr ''OK''), (''ITAB[F]'', PList [PStr ''x'', PStr ''y''])]"
    by (simp add: defs)
  have 4: "set_iteration [''ITAB[F]'', ''ITAB[F]''] [''ITAB[F]'']"
    by (simp add: set_iteration_def)
  have 5: "\<not> set_iteration [''ITAB[F]'', ''ITAB[F]''] [''ITAB[F]'', ''ITAB[F]'']"
    by (simp add: set_iteration_def)
  have 6: "process_loop scenario_result [] [''ITAB[F]'']
       = Inr [(''ITAB[F]'', PList [PStr ''x'', PStr ''y''])]"
    by (simp add: defs)
  have 7: "process_loop scenario_result [] [''ITAB[F]'', ''ITAB[F]'']
       = Inr [(''ITAB[F]'', PList [PStr ''x'', PStr ''y'', PStr ''x'', PStr ''y''])]"
    by (simp add: defs)
  from 1 2 3 4 5 6 7 show ?thesis by (intro conjI)
qed

text \<open>
  C5. The specification says that with no capture set the output is the whole raw
  result, every key and value unchanged. The code prints the entries one by one and
  renders a structure or a table with \<^verbatim>\<open>json.dumps\<close>, which raises on a
  \<^verbatim>\<open>Decimal\<close> or on \<^verbatim>\<open>bytes\<close> inside it: the entries before are printed, the
  structure and everything after it are not, nothing catches the \<^verbatim>\<open>TypeError\<close>
  before the handler of \<^verbatim>\<open>main\<close>, and the process exits with 1.
\<close>

theorem display_aborts_on_decimal:
  "process_results
     [(''STATUS'', PStr ''OK''),
      (''TOTALS'', PDict [(''AMOUNT'', PDecimal 15 (- 1))]),
      (''MESSAGE'', PStr ''done'')]
     None
   = Inl (TypeError, Some (AllResults [(''STATUS'', AsIs (PStr ''OK''))]))
   \<and> main_session ConnOpened False d
       (Returned [(''STATUS'', PStr ''OK''),
                  (''TOTALS'', PDict [(''AMOUNT'', PDecimal 15 (- 1))]),
                  (''MESSAGE'', PStr ''done'')])
       None
     = (1, [Opened, Invoked, Displayed (AllResults [(''STATUS'', AsIs (PStr ''OK''))]),
            Closed, ErrorLogged])"
  by (simp add: process_results_def display_all_results_def format_value_def
      main_session_def with_body_def execute_function_def)

text \<open>
  The same number as the value of a top-level key is printed as it is, and a raw result
  whose structures and tables hold only what \<^verbatim>\<open>json.dumps\<close> can write is shown
  whole.
\<close>

lemma top_level_decimal_is_shown:
  "process_results [(''AMOUNT'', PDecimal 15 (- 1))] None
     = Inr (AllResults [(''AMOUNT'', AsIs (PDecimal 15 (- 1)))])"
  by (simp add: process_results_def display_all_results_def format_value_def)

lemma no_capture_shows_serializable:
  assumes "\<forall>(k, v) \<in> set result. is_list v \<or> is_dict v \<longrightarrow> json_serializable v"
  shows "process_results result None = Inr (AllResults (shown_entries result))"
    and "process_results result (Some []) = Inr (AllResults (shown_entries result))"
    and "map fst (shown_entries result) = map fst result"
    and "map (\<lambda>(k, s). shown_content s) (shown_entries result) = map snd result"
  using assms
  by (auto simp: process_results_def display_all_results_def display_entries_serializable
      shown_entries_def)

text \<open>
  C6. A specifier in the indexed-table form whose table is absent from the raw result
  or is no list, and a plain specifier that is no key of the raw result, leave no entry
  in the captured results, and the loop ends without an error, whatever the other
  specifiers are.
\<close>

theorem missing_target_no_entry:
  assumes "if is_indexed s
           then (case map_of result (split_table s) of None \<Rightarrow> True | Some v \<Rightarrow> \<not> is_list v)
           else map_of result s = None"
  shows "\<exists>captured. process_loop result [] params = Inr captured \<and> map_of captured s = None"
proof -
  have none: "capture_entry result s = None"
    using assms by (auto simp: capture_entry_def split: option.splits pyval.splits if_splits)
  have inv: "lists_under_indexed []" by (simp add: lists_under_indexed_def)
  have fresh: "s \<notin> fst ` set ([] :: pydict)" by simp
  from process_loop_total[OF inv fresh none, of params]
  obtain captured where
    c: "process_loop result [] params = Inr captured \<and> s \<notin> fst ` set captured" ..
  then have "map_of captured s = None" by (simp add: map_of_eq_None_iff)
  with c show ?thesis by simp
qed

theorem missing_target_no_entry_witness:
  "(if is_indexed ''ITAB[F]''
    then (case map_of [(''ITAB'', PStr ''no table''), (''STATUS'', PStr ''OK'')]
                 (split_table ''ITAB[F]'') of None \<Rightarrow> True | Some v \<Rightarrow> \<not> is_list v)
    else map_of [(''ITAB'', PStr ''no table''), (''STATUS'', PStr ''OK'')] ''ITAB[F]'' = None)
   \<and> (\<exists>captured.
         process_loop [(''ITAB'', PStr ''no table''), (''STATUS'', PStr ''OK'')] []
           [''ITAB[F]'', ''STATUS''] = Inr captured
         \<and> map_of captured ''ITAB[F]'' = None)"
proof -
  have h: "if is_indexed ''ITAB[F]''
    then (case map_of [(''ITAB'', PStr ''no table''), (''STATUS'', PStr ''OK'')]
                 (split_table ''ITAB[F]'') of None \<Rightarrow> True | Some v \<Rightarrow> \<not> is_list v)
    else map_of [(''ITAB'', PStr ''no table''), (''STATUS'', PStr ''OK'')] ''ITAB[F]'' = None"
    by (simp add: is_indexed_def endswith_rbracket_def split_table_def)
  from h missing_target_no_entry[OF h, of "[''ITAB[F]'', ''STATUS'']"]
  show ?thesis by (rule conjI)
qed

text \<open>
  C7, as the code has it. With a destination that is not the empty string, the loop
  goes through the sections in the order of the file and reads the \<^verbatim>\<open>dest\<close> option
  of each that has one, interpolated as \<^verbatim>\<open>ConfigParser\<close> does: the parameters are
  the items of the first section whose \<^verbatim>\<open>dest\<close> equals the destination; the process
  exits with 1 when no section has it, when a \<^verbatim>\<open>dest\<close> read on the way cannot be
  interpolated, or when a value of the selected section cannot. Without a destination,
  or with the empty string, the first section is taken (exit 1 when there is none).
  The items of a section are its own options over those of \<^verbatim>\<open>DEFAULT\<close>, the options
  of no other section; a value without a percent sign is the value of the file, and a
  percent sign followed by neither a percent sign nor an opening parenthesis cannot be
  interpolated.
\<close>

theorem load_config_selection:
  assumes "d \<noteq> []"
  shows "(\<forall>pre sec opts post.
            cfg_sections cfg = pre @ (sec, opts) # post
            \<and> (\<forall>(n, so) \<in> set pre. has_option cfg so ''dest'' \<longrightarrow>
                  (\<exists>v. get_option cfg so ''dest'' = Inr v \<and> v \<noteq> d))
            \<and> get_option cfg opts ''dest'' = Inr d
            \<longrightarrow> load_config (Parsed cfg) (Some d) = section_items cfg opts)
       \<and> ((\<forall>(n, so) \<in> set (cfg_sections cfg). has_option cfg so ''dest'' \<longrightarrow>
                  (\<exists>v. get_option cfg so ''dest'' = Inr v \<and> v \<noteq> d))
            \<longrightarrow> load_config (Parsed cfg) (Some d) = Inl 1)
       \<and> (\<forall>pre sec opts post e.
            cfg_sections cfg = pre @ (sec, opts) # post
            \<and> (\<forall>(n, so) \<in> set pre. has_option cfg so ''dest'' \<longrightarrow>
                  (\<exists>v. get_option cfg so ''dest'' = Inr v \<and> v \<noteq> d))
            \<and> has_option cfg opts ''dest'' \<and> get_option cfg opts ''dest'' = Inl e
            \<longrightarrow> load_config (Parsed cfg) (Some d) = Inl 1)
       \<and> load_config (Parsed cfg) None =
            (case cfg_sections cfg of [] \<Rightarrow> Inl 1 | (sec, opts) # rest \<Rightarrow> section_items cfg opts)
       \<and> load_config (Parsed cfg) (Some []) = load_config (Parsed cfg) None
       \<and> (\<forall>opts. section_items cfg opts =
             (case items cfg opts of Inl e \<Rightarrow> Inl 1 | Inr its \<Rightarrow> Inr its))
       \<and> (\<forall>opts. (\<forall>(k, v) \<in> set (unify_values cfg opts). CHR ''%'' \<notin> set v)
             \<longrightarrow> items cfg opts = Inr (unify_values cfg opts))
       \<and> (\<forall>opts k v. map_of (unify_values cfg opts) k = Some v \<and> CHR ''%'' \<notin> set v
             \<longrightarrow> get_option cfg opts k = Inr v)
       \<and> (\<forall>opts k pre post.
             map_of (unify_values cfg opts) k = Some (pre @ CHR ''%'' # post)
             \<and> CHR ''%'' \<notin> set pre
             \<and> (post = [] \<or> (hd post \<noteq> CHR ''%'' \<and> hd post \<noteq> CHR ''(''))
             \<longrightarrow> get_option cfg opts k = Inl InterpolationSyntaxError
                 \<and> section_items cfg opts = Inl 1)
       \<and> (\<forall>opts k. distinct (map fst opts) \<longrightarrow>
             map_of (unify_values cfg opts) k =
               (case map_of opts k of Some v \<Rightarrow> Some v | None \<Rightarrow> map_of (cfg_defaults cfg) k))
       \<and> (\<forall>opts. distinct (map fst opts) \<and> cfg_defaults cfg = []
             \<longrightarrow> unify_values cfg opts = opts)"
proof -
  obtain c cs where d: "d = c # cs" using assms by (cases d) auto
  have sel: "load_config (Parsed cfg) (Some d) = find_dest cfg d (cfg_sections cfg)"
    by (simp add: load_config_def d)
  have 1: "\<forall>pre sec opts post.
            cfg_sections cfg = pre @ (sec, opts) # post
            \<and> (\<forall>(n, so) \<in> set pre. has_option cfg so ''dest'' \<longrightarrow>
                  (\<exists>v. get_option cfg so ''dest'' = Inr v \<and> v \<noteq> d))
            \<and> get_option cfg opts ''dest'' = Inr d
            \<longrightarrow> load_config (Parsed cfg) (Some d) = section_items cfg opts"
  proof (intro allI impI, elim conjE)
    fix pre sec opts post
    assume s: "cfg_sections cfg = pre @ (sec, opts) # post"
      and p: "\<forall>(n, so) \<in> set pre. has_option cfg so ''dest'' \<longrightarrow>
                  (\<exists>v. get_option cfg so ''dest'' = Inr v \<and> v \<noteq> d)"
      and h: "get_option cfg opts ''dest'' = Inr d"
    have "find_dest cfg d (pre @ (sec, opts) # post) = find_dest cfg d ((sec, opts) # post)"
      by (rule find_dest_skip[OF p])
    also have "\<dots> = section_items cfg opts" by (rule find_dest_hit[OF h])
    finally show "load_config (Parsed cfg) (Some d) = section_items cfg opts"
      using sel s by simp
  qed
  have 2: "(\<forall>(n, so) \<in> set (cfg_sections cfg). has_option cfg so ''dest'' \<longrightarrow>
                  (\<exists>v. get_option cfg so ''dest'' = Inr v \<and> v \<noteq> d))
            \<longrightarrow> load_config (Parsed cfg) (Some d) = Inl 1"
    using sel find_dest_miss[of "cfg_sections cfg" cfg d] by simp
  have 3: "\<forall>pre sec opts post e.
            cfg_sections cfg = pre @ (sec, opts) # post
            \<and> (\<forall>(n, so) \<in> set pre. has_option cfg so ''dest'' \<longrightarrow>
                  (\<exists>v. get_option cfg so ''dest'' = Inr v \<and> v \<noteq> d))
            \<and> has_option cfg opts ''dest'' \<and> get_option cfg opts ''dest'' = Inl e
            \<longrightarrow> load_config (Parsed cfg) (Some d) = Inl 1"
  proof (intro allI impI, elim conjE)
    fix pre sec opts post e
    assume s: "cfg_sections cfg = pre @ (sec, opts) # post"
      and p: "\<forall>(n, so) \<in> set pre. has_option cfg so ''dest'' \<longrightarrow>
                  (\<exists>v. get_option cfg so ''dest'' = Inr v \<and> v \<noteq> d)"
      and h: "has_option cfg opts ''dest''" and g: "get_option cfg opts ''dest'' = Inl e"
    have "find_dest cfg d (pre @ (sec, opts) # post) = find_dest cfg d ((sec, opts) # post)"
      by (rule find_dest_skip[OF p])
    also have "\<dots> = Inl 1" by (rule find_dest_raise[OF h g])
    finally show "load_config (Parsed cfg) (Some d) = Inl 1"
      using sel s by simp
  qed
  have 4: "load_config (Parsed cfg) None =
            (case cfg_sections cfg of [] \<Rightarrow> Inl 1 | (sec, opts) # rest \<Rightarrow> section_items cfg opts)"
    by (simp add: load_config_def)
  have 5: "load_config (Parsed cfg) (Some []) = load_config (Parsed cfg) None"
    by (simp add: load_config_def)
  have 6: "\<forall>opts. section_items cfg opts =
             (case items cfg opts of Inl e \<Rightarrow> Inl 1 | Inr its \<Rightarrow> Inr its)"
    by (simp add: section_items_def)
  have 7: "\<forall>opts. (\<forall>(k, v) \<in> set (unify_values cfg opts). CHR ''%'' \<notin> set v)
             \<longrightarrow> items cfg opts = Inr (unify_values cfg opts)"
    by (simp add: items_def interpolate_items_no_percent)
  have 8: "\<forall>opts k v. map_of (unify_values cfg opts) k = Some v \<and> CHR ''%'' \<notin> set v
             \<longrightarrow> get_option cfg opts k = Inr v"
    by (simp add: get_option_def before_get_no_percent)
  have 9: "\<forall>opts k pre post.
             map_of (unify_values cfg opts) k = Some (pre @ CHR ''%'' # post)
             \<and> CHR ''%'' \<notin> set pre
             \<and> (post = [] \<or> (hd post \<noteq> CHR ''%'' \<and> hd post \<noteq> CHR ''(''))
             \<longrightarrow> get_option cfg opts k = Inl InterpolationSyntaxError
                 \<and> section_items cfg opts = Inl 1"
  proof (intro allI impI, elim conjE)
    fix opts k pre post
    assume m: "map_of (unify_values cfg opts) k = Some (pre @ CHR ''%'' # post)"
      and p: "CHR ''%'' \<notin> set pre"
      and q: "post = [] \<or> (hd post \<noteq> CHR ''%'' \<and> hd post \<noteq> CHR ''('')"
    have b: "before_get (unify_values cfg opts) (pre @ CHR ''%'' # post)
        = Inl InterpolationSyntaxError"
      unfolding before_get_def by (rule interpolate_lone_percent[OF _ p q]) simp
    have g: "get_option cfg opts k = Inl InterpolationSyntaxError"
      using m b by (simp add: get_option_def)
    have "(k, pre @ CHR ''%'' # post) \<in> set (unify_values cfg opts)"
      using m by (rule map_of_SomeD)
    from interpolate_items_raises[OF this b]
    obtain e' where "items cfg opts = Inl e'" unfolding items_def ..
    then have "section_items cfg opts = Inl 1" by (simp add: section_items_def)
    with g show "get_option cfg opts k = Inl InterpolationSyntaxError
                 \<and> section_items cfg opts = Inl 1" by (rule conjI)
  qed
  have 10: "\<forall>opts k. distinct (map fst opts) \<longrightarrow>
             map_of (unify_values cfg opts) k =
               (case map_of opts k of Some v \<Rightarrow> Some v | None \<Rightarrow> map_of (cfg_defaults cfg) k)"
    by (simp add: unify_values_def map_of_dict_update)
  have 11: "\<forall>opts. distinct (map fst opts) \<and> cfg_defaults cfg = []
             \<longrightarrow> unify_values cfg opts = opts"
    using dict_update_empty[of _ "[]"] by (simp add: unify_values_def)
  from 1 2 3 4 5 6 7 8 9 10 11 show ?thesis by (intro conjI)
qed

theorem load_config_selection_witness:
  "''B'' \<noteq> [] \<and> load_config (Parsed \<lparr>cfg_defaults = [],
           cfg_sections = [(''first'', [(''user'', ''u1''), (''dest'', ''A'')]),
                           (''second'', [(''user'', ''u2''), (''dest'', ''B'')])]\<rparr>) (Some ''B'')
     = Inr [(''user'', ''u2''), (''dest'', ''B'')]"
proof -
  let ?cfg = "\<lparr>cfg_defaults = [],
           cfg_sections = [(''first'', [(''user'', ''u1''), (''dest'', ''A'')]),
                           (''second'', [(''user'', ''u2''), (''dest'', ''B'')])]\<rparr>"
  note defs = get_option_def has_option_def unify_values_def dict_update_def
    before_get_no_percent section_items_def items_def
  have h: "''B'' \<noteq> []" by simp
  note t = load_config_selection[OF h, of ?cfg]
  note a = t[THEN conjunct1, rule_format,
      of "[(''first'', [(''user'', ''u1''), (''dest'', ''A'')])]"
         "''second''" "[(''user'', ''u2''), (''dest'', ''B'')]" "[]"]
  have pre: "cfg_sections ?cfg
       = [(''first'', [(''user'', ''u1''), (''dest'', ''A'')])]
         @ (''second'', [(''user'', ''u2''), (''dest'', ''B'')]) # []
     \<and> (\<forall>(n, so) \<in> set [(''first'', [(''user'', ''u1''), (''dest'', ''A'')])].
           has_option ?cfg so ''dest'' \<longrightarrow>
             (\<exists>v. get_option ?cfg so ''dest'' = Inr v \<and> v \<noteq> ''B''))
     \<and> get_option ?cfg [(''user'', ''u2''), (''dest'', ''B'')] ''dest'' = Inr ''B''"
    by (simp add: defs)
  have l: "load_config (Parsed ?cfg) (Some ''B'')
      = section_items ?cfg [(''user'', ''u2''), (''dest'', ''B'')]"
    by (rule a[OF pre])
  have e: "section_items ?cfg [(''user'', ''u2''), (''dest'', ''B'')]
      = Inr [(''user'', ''u2''), (''dest'', ''B'')]"
    by (simp add: defs)
  from l e have "load_config (Parsed ?cfg) (Some ''B'') = Inr [(''user'', ''u2''), (''dest'', ''B'')]"
    by (rule trans)
  with h show ?thesis by (rule conjI)
qed

text \<open>
  The empty string as destination selects the first section, also when another section
  has the empty string as its \<^verbatim>\<open>dest\<close> and also when none has; the options of
  \<^verbatim>\<open>DEFAULT\<close> come with the selected section; and a destination that a section
  matches still ends in exit code 1 when a \<^verbatim>\<open>dest\<close> before it, or a value of the
  section itself, holds a lone percent sign.
\<close>

theorem load_config_selection_counterexample:
  "load_config (Parsed \<lparr>cfg_defaults = [],
           cfg_sections = [(''first'', [(''user'', ''u1''), (''dest'', ''A'')]),
                           (''second'', [(''user'', ''u2''), (''dest'', '''')])]\<rparr>) (Some '''')
     = Inr [(''user'', ''u1''), (''dest'', ''A'')]
   \<and> load_config (Parsed \<lparr>cfg_defaults = [],
           cfg_sections = [(''first'', [(''user'', ''u1''), (''dest'', ''A'')])]\<rparr>) (Some '''')
     \<noteq> Inl 1
   \<and> load_config (Parsed \<lparr>cfg_defaults = [(''client'', ''100'')],
           cfg_sections = [(''first'', [(''user'', ''u1''), (''dest'', ''A'')]),
                           (''second'', [(''user'', ''u2''), (''dest'', ''B'')])]\<rparr>) (Some ''B'')
     = Inr [(''client'', ''100''), (''user'', ''u2''), (''dest'', ''B'')]
   \<and> load_config (Parsed \<lparr>cfg_defaults = [],
           cfg_sections = [(''first'', [(''user'', ''u1''), (''dest'', ''50%'')]),
                           (''second'', [(''user'', ''u2''), (''dest'', ''B'')])]\<rparr>) (Some ''B'')
     = Inl 1
   \<and> load_config (Parsed \<lparr>cfg_defaults = [],
           cfg_sections = [(''first'', [(''user'', ''u1''), (''dest'', ''A'')]),
                           (''second'', [(''passwd'', ''P%ssw0rd''), (''dest'', ''B'')])]\<rparr>)
         (Some ''B'')
     = Inl 1"
proof -
  note defs = load_config_def get_option_def has_option_def unify_values_def dict_update_def
    before_get_no_percent section_items_def items_def
  have p1: "\<And>m. before_get m ''50%'' = Inl InterpolationSyntaxError"
    by (simp add: before_get_def interpolate_plain interpolate_percent_end)
  have p2: "\<And>m. before_get m ''P%ssw0rd'' = Inl InterpolationSyntaxError"
    by (simp add: before_get_def interpolate_plain interpolate_percent_other)
  have 1: "load_config (Parsed \<lparr>cfg_defaults = [],
           cfg_sections = [(''first'', [(''user'', ''u1''), (''dest'', ''A'')]),
                           (''second'', [(''user'', ''u2''), (''dest'', '''')])]\<rparr>) (Some '''')
     = Inr [(''user'', ''u1''), (''dest'', ''A'')]"
    by (simp add: defs)
  have 2: "load_config (Parsed \<lparr>cfg_defaults = [],
           cfg_sections = [(''first'', [(''user'', ''u1''), (''dest'', ''A'')])]\<rparr>) (Some '''')
     \<noteq> Inl 1"
    by (simp add: defs)
  have 3: "load_config (Parsed \<lparr>cfg_defaults = [(''client'', ''100'')],
           cfg_sections = [(''first'', [(''user'', ''u1''), (''dest'', ''A'')]),
                           (''second'', [(''user'', ''u2''), (''dest'', ''B'')])]\<rparr>) (Some ''B'')
     = Inr [(''client'', ''100''), (''user'', ''u2''), (''dest'', ''B'')]"
    by (simp add: defs)
  have 4: "load_config (Parsed \<lparr>cfg_defaults = [],
           cfg_sections = [(''first'', [(''user'', ''u1''), (''dest'', ''50%'')]),
                           (''second'', [(''user'', ''u2''), (''dest'', ''B'')])]\<rparr>) (Some ''B'')
     = Inl 1"
    by (simp add: defs p1)
  have 5: "load_config (Parsed \<lparr>cfg_defaults = [],
           cfg_sections = [(''first'', [(''user'', ''u1''), (''dest'', ''A'')]),
                           (''second'', [(''passwd'', ''P%ssw0rd''), (''dest'', ''B'')])]\<rparr>)
         (Some ''B'')
     = Inl 1"
    by (simp add: defs p2)
  from 1 2 3 4 5 show ?thesis by (intro conjI)
qed

text \<open>
  C8. The parameters are printed in the order of their keys: by the rank of the
  direction first and by the \<^verbatim>\<open>name\<close> field (the empty string when absent) among
  equal ranks; the sorted list is a rearrangement of the parameters, and parameters with
  equal rank and name keep their relative order. The rank is 1 for IMPORTING, 2 for
  EXPORTING, 3 for CHANGING, 4 for TABLES, read from the \<^verbatim>\<open>direction\<close> field with
  the letters a to z turned into capitals, and 5 for any other string and for an absent
  field.
\<close>

theorem sorted_parameters_order:
  "sorted_wrt (\<lambda>p q. direction_rank p < direction_rank q
        \<or> (direction_rank p = direction_rank q
            \<and> (case name p of None \<Rightarrow> [] | Some n \<Rightarrow> n)
                \<le> (case name q of None \<Rightarrow> [] | Some n \<Rightarrow> n)))
      (sorted_parameters ps)
   \<and> mset (sorted_parameters ps) = mset ps
   \<and> (\<forall>r n. filter (\<lambda>p. direction_rank p = r \<and> (case name p of None \<Rightarrow> [] | Some n \<Rightarrow> n) = n)
                (sorted_parameters ps)
            = filter (\<lambda>p. direction_rank p = r \<and> (case name p of None \<Rightarrow> [] | Some n \<Rightarrow> n) = n)
                ps)
   \<and> (\<forall>p. parameter_key_function p
            = (direction_rank p, case name p of None \<Rightarrow> [] | Some n \<Rightarrow> n))
   \<and> (\<forall>p. direction_rank p =
        (let d = upper (case direction p of None \<Rightarrow> [] | Some d \<Rightarrow> d)
         in if d = ''IMPORTING'' then 1 else if d = ''EXPORTING'' then 2
            else if d = ''CHANGING'' then 3 else if d = ''TABLES'' then 4 else 5))
   \<and> (\<forall>s. map of_char (upper s) =
        map (\<lambda>c. if (97::nat) \<le> of_char c \<and> of_char c \<le> (122::nat) then of_char c - 32
                  else (of_char c :: nat)) s)
   \<and> direction_rank (p\<lparr>direction := Some ''importing''\<rparr>) = 1
   \<and> direction_rank (p\<lparr>direction := Some ''RFC_IMPORT''\<rparr>) = 5
   \<and> direction_rank (p\<lparr>direction := None\<rparr>) = 5"
proof -
  have key: "\<And>p. parameter_key_function p
      = (direction_rank p, case name p of None \<Rightarrow> [] | Some n \<Rightarrow> n)"
    by (simp add: parameter_key_function_def parameter_name_def)
  have "sorted_wrt (\<lambda>p q. parameter_key_function p \<le> parameter_key_function q)
      (sorted_parameters ps)"
    using sorted_parameters_sorted[of ps] by (simp add: sorted_map)
  then have 1: "sorted_wrt (\<lambda>p q. direction_rank p < direction_rank q
        \<or> (direction_rank p = direction_rank q
            \<and> (case name p of None \<Rightarrow> [] | Some n \<Rightarrow> n)
                \<le> (case name q of None \<Rightarrow> [] | Some n \<Rightarrow> n)))
      (sorted_parameters ps)"
    by (rule sorted_wrt_mono_rel[rotated]) (auto simp: key less_eq_prod_def)
  have 2: "mset (sorted_parameters ps) = mset ps" by (simp add: sorted_parameters_def)
  have 3: "\<forall>r n. filter (\<lambda>p. direction_rank p = r \<and> (case name p of None \<Rightarrow> [] | Some n \<Rightarrow> n) = n)
                (sorted_parameters ps)
            = filter (\<lambda>p. direction_rank p = r \<and> (case name p of None \<Rightarrow> [] | Some n \<Rightarrow> n) = n)
                ps"
  proof (intro allI)
    fix r n
    show "filter (\<lambda>p. direction_rank p = r \<and> (case name p of None \<Rightarrow> [] | Some n \<Rightarrow> n) = n)
                (sorted_parameters ps)
            = filter (\<lambda>p. direction_rank p = r \<and> (case name p of None \<Rightarrow> [] | Some n \<Rightarrow> n) = n)
                ps"
      using sort_key_stable[of parameter_key_function "(r, n)" ps]
      by (simp add: sorted_parameters_def key)
  qed
  have 4: "\<forall>p. parameter_key_function p
            = (direction_rank p, case name p of None \<Rightarrow> [] | Some n \<Rightarrow> n)"
    by (simp add: key)
  have 5: "\<forall>p. direction_rank p =
        (let d = upper (case direction p of None \<Rightarrow> [] | Some d \<Rightarrow> d)
         in if d = ''IMPORTING'' then 1 else if d = ''EXPORTING'' then 2
            else if d = ''CHANGING'' then 3 else if d = ''TABLES'' then 4 else 5)"
    by (rule allI) (rule direction_rank_cases)
  have 6: "\<forall>s. map of_char (upper s) =
        map (\<lambda>c. if (97::nat) \<le> of_char c \<and> of_char c \<le> (122::nat) then of_char c - 32
                  else (of_char c :: nat)) s"
    by (rule allI) (rule of_char_upper)
  have u: "upper ''importing'' = ''IMPORTING''" by code_simp
  have 7: "direction_rank (p\<lparr>direction := Some ''importing''\<rparr>) = 1"
    by (simp add: direction_rank_def direction_order_def u)
  have 8: "direction_rank (p\<lparr>direction := Some ''RFC_IMPORT''\<rparr>) = 5"
    by (simp add: direction_rank_def direction_order_def upper_def upper_char_def)
  have 9: "direction_rank (p\<lparr>direction := None\<rparr>) = 5"
    by (simp add: direction_rank_def direction_order_def upper_def)
  from 1 2 3 4 5 6 7 8 9 show ?thesis by (intro conjI)
qed

text \<open>
  C9. A specifier that contains an opening bracket and ends with a closing bracket is
  cut at its first opening bracket: the table name is the text before it, and the field
  is the rest without its closing brackets at the end, however many there are. So a
  specifier and the same specifier with one more closing bracket name the same table and
  field, and the loop stores the same value under each of the two keys.
\<close>

theorem bracket_specifier_parse:
  assumes "is_indexed s" and "distinct params" and "s \<in> set params" and "s @ '']'' \<in> set params"
  shows "s = split_table s @ ''['' @ split_rest s
       \<and> CHR ''['' \<notin> set (split_table s)
       \<and> split_field s = rstrip_rbracket (split_rest s)
       \<and> (\<exists>n. split_rest s = split_field s @ replicate n (CHR '']''))
       \<and> \<not> endswith_rbracket (split_field s)
       \<and> is_indexed (s @ '']'')
       \<and> split_table (s @ '']'') = split_table s
       \<and> split_field (s @ '']'') = split_field s
       \<and> (\<exists>captured. process_loop result [] params = Inr captured
             \<and> map_of captured (s @ '']'') = map_of captured s
             \<and> map_of captured s = capture_entry result s)"
proof -
  have b: "CHR ''['' \<in> set s" using assms(1) by (simp add: is_indexed_def)
  have 1: "s = split_table s @ ''['' @ split_rest s" by (rule split_join[OF b])
  have 2: "CHR ''['' \<notin> set (split_table s)" by (rule split_table_no_bracket)
  have 3: "split_field s = rstrip_rbracket (split_rest s)" by (simp add: split_field_def)
  have 4: "\<exists>n. split_rest s = split_field s @ replicate n (CHR '']'')"
    unfolding split_field_def by (rule rstrip_decompose)
  have 5: "\<not> endswith_rbracket (split_field s)"
    unfolding split_field_def by (rule rstrip_no_rbracket)
  have 6: "is_indexed (s @ '']'')" by (rule is_indexed_append_rbracket[OF assms(1)])
  have 7: "split_table (s @ '']'') = split_table s" by (rule split_table_append[OF b])
  have 8: "split_field (s @ '']'') = split_field s"
    by (simp add: split_field_def split_rest_append[OF b] rstrip_append_rbracket)
  let ?c = "concat (map (entry_list result) params)"
  have l: "process_loop result [] params = Inr ?c" by (rule process_loop_set[OF assms(2)])
  have m1: "map_of ?c s = capture_entry result s"
    using assms(3) by (simp add: map_of_concat_entries)
  have m2: "map_of ?c (s @ '']'') = capture_entry result s"
    using assms(4) by (simp add: map_of_concat_entries capture_entry_append_rbracket[OF assms(1)])
  have 9: "\<exists>captured. process_loop result [] params = Inr captured
             \<and> map_of captured (s @ '']'') = map_of captured s
             \<and> map_of captured s = capture_entry result s"
    using l m1 m2 by simp
  from 1 2 3 4 5 6 7 8 9 show ?thesis by (intro conjI)
qed

theorem bracket_specifier_parse_witness:
  "is_indexed ''ITAB[F]'' \<and> distinct [''ITAB[F]'', ''ITAB[F]]'']
   \<and> ''ITAB[F]'' \<in> set [''ITAB[F]'', ''ITAB[F]]'']
   \<and> ''ITAB[F]'' @ '']'' \<in> set [''ITAB[F]'', ''ITAB[F]]'']
   \<and> split_table (''ITAB[F]'' @ '']'') = split_table ''ITAB[F]''
   \<and> split_field (''ITAB[F]'' @ '']'') = split_field ''ITAB[F]''"
proof -
  have h1: "is_indexed ''ITAB[F]''" by (simp add: is_indexed_def endswith_rbracket_def)
  have h2: "distinct [''ITAB[F]'', ''ITAB[F]]'']" by simp
  have h3: "''ITAB[F]'' \<in> set [''ITAB[F]'', ''ITAB[F]]'']" by simp
  have h4: "''ITAB[F]'' @ '']'' \<in> set [''ITAB[F]'', ''ITAB[F]]'']" by simp
  note t = bracket_specifier_parse[OF h1 h2 h3 h4, of scenario_result]
  note a = t[THEN conjunct2, THEN conjunct2, THEN conjunct2, THEN conjunct2, THEN conjunct2,
      THEN conjunct2, THEN conjunct1]
  note b = t[THEN conjunct2, THEN conjunct2, THEN conjunct2, THEN conjunct2, THEN conjunct2,
      THEN conjunct2, THEN conjunct2, THEN conjunct1]
  from h1 h2 h3 h4 a b show ?thesis by (intro conjI)
qed

text \<open>
  C10. The mapping handed to the native library holds, for each of \<^verbatim>\<open>user\<close>,
  \<^verbatim>\<open>passwd\<close>, \<^verbatim>\<open>ashost\<close>, \<^verbatim>\<open>client\<close>, \<^verbatim>\<open>sysnr\<close> and \<^verbatim>\<open>saprouter\<close>, the
  value of the field when it is not \<^verbatim>\<open>None\<close>, each key once and in this order,
  and no other key, \<^verbatim>\<open>dest\<close> and \<^verbatim>\<open>lang\<close> included. \<^verbatim>\<open>connect\<close> raises when
  \<^verbatim>\<open>ashost\<close>, \<^verbatim>\<open>sysnr\<close> or \<^verbatim>\<open>client\<close> is missing and otherwise hands this
  mapping to the library, whose answer decides the outcome; so neither the mapping nor
  the outcome changes with \<^verbatim>\<open>dest\<close> and \<^verbatim>\<open>lang\<close>.
\<close>

theorem to_dict_drops_dest_lang:
  "map_of (to_dict p) k =
     (if k = ''user'' then user p else if k = ''passwd'' then passwd p
      else if k = ''ashost'' then ashost p else if k = ''client'' then client p
      else if k = ''sysnr'' then sysnr p else if k = ''saprouter'' then saprouter p
      else None)
   \<and> distinct (map fst (to_dict p))
   \<and> map fst (to_dict p) =
       map fst (filter (\<lambda>(k, v). v \<noteq> None)
         [(''user'', user p), (''passwd'', passwd p), (''ashost'', ashost p),
          (''client'', client p), (''sysnr'', sysnr p), (''saprouter'', saprouter p)])
   \<and> to_dict (p\<lparr>dest := d, lang := l\<rparr>) = to_dict p
   \<and> connect native p =
       (if ashost p = None \<or> sysnr p = None \<or> client p = None then ConnRaised
        else (case native (to_dict p) of
                NativeConnected \<Rightarrow> ConnOpened
              | NativeRFCError \<Rightarrow> ConnExit 1
              | NativeOtherError \<Rightarrow> ConnRaised
              | NativeInterrupted \<Rightarrow> ConnInterrupted))
   \<and> connect native (p\<lparr>dest := d, lang := l\<rparr>) = connect native p"
proof -
  have 1: "map_of (to_dict p) k =
     (if k = ''user'' then user p else if k = ''passwd'' then passwd p
      else if k = ''ashost'' then ashost p else if k = ''client'' then client p
      else if k = ''sysnr'' then sysnr p else if k = ''saprouter'' then saprouter p
      else None)"
    by (rule map_of_to_dict_fields)
  have 2: "distinct (map fst (to_dict p))" by (rule distinct_to_dict)
  have 3: "map fst (to_dict p) =
       map fst (filter (\<lambda>(k, v). v \<noteq> None)
         [(''user'', user p), (''passwd'', passwd p), (''ashost'', ashost p),
          (''client'', client p), (''sysnr'', sysnr p), (''saprouter'', saprouter p)])"
    unfolding to_dict_eq keys_to_dict_items by simp
  have 4: "to_dict (p\<lparr>dest := d, lang := l\<rparr>) = to_dict p" by (rule to_dict_ignores)
  have 5: "connect native p =
       (if ashost p = None \<or> sysnr p = None \<or> client p = None then ConnRaised
        else (case native (to_dict p) of
                NativeConnected \<Rightarrow> ConnOpened
              | NativeRFCError \<Rightarrow> ConnExit 1
              | NativeOtherError \<Rightarrow> ConnRaised
              | NativeInterrupted \<Rightarrow> ConnInterrupted))"
    by (simp add: connect_def Let_def map_of_to_dict_fields)
  have 6: "connect native (p\<lparr>dest := d, lang := l\<rparr>) = connect native p"
    unfolding connect_def 4 ..
  from 1 2 3 4 5 6 show ?thesis by (intro conjI)
qed

end
